theory Spec2Isabelle
  imports Complex_Main "HOL-Library.Multiset"
begin

section \<open>Numbers\<close>

text \<open>
  A JavaScript number is an IEEE 754 binary64 value: \<open>Fin q\<close> is the finite number of
  rational value \<open>q\<close>, and \<open>PosInf\<close>, \<open>NegInf\<close> and \<open>NaN\<close> are the three special values.
  The two zeros are one value here: \<^verbatim>\<open>===\<close> and \<^verbatim>\<open><\<close>, the only tests the source makes,
  do not tell them apart.

  \<open>round64\<close> rounds a rational to the nearest binary64 value, ties to the even
  significand: \<open>flog2 a\<close> is the exponent \<open>e\<close> with \<open>2^e \<le> a < 2^(e+1)\<close>, kept at \<open>-1022\<close>
  from below (subnormal numbers), the significand has 53 bits, and a result of \<open>2^1024\<close>
  or more is infinite.
\<close>

datatype jsnum = Fin rat | PosInf | NegInf | NaN

function bitlen :: "int \<Rightarrow> int" where
  "bitlen n = (if n \<le> 0 then 0 else 1 + bitlen (n div 2))"
  by pat_completeness auto
termination
  by (relation "measure nat") auto

declare bitlen.simps [simp del]

definition pow2 :: "int \<Rightarrow> rat" where
  "pow2 k = (if 0 \<le> k then 2 ^ nat k else 1 / 2 ^ nat (- k))"

definition flog2 :: "rat \<Rightarrow> int" where
  "flog2 a = (if 1 \<le> a then bitlen \<lfloor>a\<rfloor> - 1 else - bitlen (\<lceil>1 / a\<rceil> - 1))"

definition round_half_even :: "rat \<Rightarrow> int" where
  "round_half_even x =
     (let f = \<lfloor>x\<rfloor>; d = x - of_int f
      in if d < 1 / 2 then f else if 1 / 2 < d then f + 1
         else if even f then f else f + 1)"

definition round_pos :: "rat \<Rightarrow> jsnum" where
  "round_pos a =
     (let e = max (flog2 a) (- 1022);
          n = round_half_even (a * pow2 (52 - e));
          r = of_int n * pow2 (e - 52)
      in if pow2 1024 \<le> r then PosInf else Fin r)"

definition js_neg :: "jsnum \<Rightarrow> jsnum" where
  "js_neg x = (case x of Fin q \<Rightarrow> Fin (- q) | PosInf \<Rightarrow> NegInf | NegInf \<Rightarrow> PosInf | NaN \<Rightarrow> NaN)"

definition round64 :: "rat \<Rightarrow> jsnum" where
  "round64 q = (if q = 0 then Fin 0 else if q < 0 then js_neg (round_pos (- q)) else round_pos q)"

text \<open>The operators \<^verbatim>\<open>-\<close> and \<^verbatim>\<open><\<close> on numbers, and \<^verbatim>\<open>Math.abs\<close>.\<close>

fun js_sub :: "jsnum \<Rightarrow> jsnum \<Rightarrow> jsnum" where
  "js_sub (Fin a) (Fin b) = round64 (a - b)"
| "js_sub (Fin a) PosInf = NegInf"
| "js_sub (Fin a) NegInf = PosInf"
| "js_sub PosInf (Fin b) = PosInf"
| "js_sub PosInf NegInf = PosInf"
| "js_sub PosInf PosInf = NaN"
| "js_sub NegInf (Fin b) = NegInf"
| "js_sub NegInf PosInf = NegInf"
| "js_sub NegInf NegInf = NaN"
| "js_sub NaN y = NaN"
| "js_sub x NaN = NaN"

fun js_lt :: "jsnum \<Rightarrow> jsnum \<Rightarrow> bool" where
  "js_lt (Fin a) (Fin b) = (a < b)"
| "js_lt (Fin a) PosInf = True"
| "js_lt NegInf (Fin b) = True"
| "js_lt NegInf PosInf = True"
| "js_lt x y = False"

definition js_abs :: "jsnum \<Rightarrow> jsnum" where
  "js_abs x = (case x of Fin q \<Rightarrow> Fin \<bar>q\<bar> | PosInf \<Rightarrow> PosInf | NegInf \<Rightarrow> PosInf | NaN \<Rightarrow> NaN)"

section \<open>Objects used as dictionaries\<close>

text \<open>
  \<^verbatim>\<open>currentStocks\<close>, \<^verbatim>\<open>productTransactions\<close>, \<^verbatim>\<open>inferredStocks\<close> and the opening-stock
  objects are plain objects: their own properties are a map from names to values, and
  they inherit the properties of \<^verbatim>\<open>Object.prototype\<close>, whose names are listed below.
  Reading \<^verbatim>\<open>o[k]\<close> gives the own value, else the inherited function or object, else
  \<^verbatim>\<open>undefined\<close>.  Writing \<^verbatim>\<open>o[k] = v\<close> makes or updates an own property, except that for
  \<^verbatim>\<open>__proto__\<close>, when it is not an own property, the inherited setter runs and ignores a
  value that is not an object.
\<close>

definition ObjectPrototypeNames :: "string list" where
  "ObjectPrototypeNames =
     [''constructor'', ''__defineGetter__'', ''__defineSetter__'', ''hasOwnProperty'',
      ''__lookupGetter__'', ''__lookupSetter__'', ''isPrototypeOf'', ''propertyIsEnumerable'',
      ''toString'', ''valueOf'', ''__proto__'', ''toLocaleString'']"

datatype 'v lookup = Own 'v | Inherited | Absent

definition get_prop :: "(string \<rightharpoonup> 'v) \<Rightarrow> string \<Rightarrow> 'v lookup" where
  "get_prop obj k =
     (case obj k of
        Some v \<Rightarrow> Own v
      | None \<Rightarrow> if k \<in> set ObjectPrototypeNames then Inherited else Absent)"

definition set_prop :: "(string \<rightharpoonup> 'v) \<Rightarrow> string \<Rightarrow> 'v \<Rightarrow> (string \<rightharpoonup> 'v)" where
  "set_prop obj k v = (if k = ''__proto__'' \<and> obj k = None then obj else obj(k \<mapsto> v))"

text \<open>
  The number an arithmetic operator makes of what was read: a function, an object and
  \<^verbatim>\<open>undefined\<close> all convert to NaN.
\<close>

definition to_number :: "jsnum lookup \<Rightarrow> jsnum" where
  "to_number r = (case r of Own v \<Rightarrow> v | Inherited \<Rightarrow> NaN | Absent \<Rightarrow> NaN)"

text \<open>
  Where the order of the own properties matters, an object is an association list from
  the names to the values, in the order in which the properties were made; \<open>obj_update\<close>
  makes or updates an own property there.  \<open>own_properties\<close> is the order in which
  \<^verbatim>\<open>for ... in\<close>, \<^verbatim>\<open>Object.keys\<close>, \<^verbatim>\<open>Object.values\<close> and the spread go through
  them: first the names that are array indices (canonical decimal numerals up to
  \<open>2^32 - 2\<close>), ascending, then the other names in the order in which they were made.
\<close>

definition is_digit :: "char \<Rightarrow> bool" where
  "is_digit c = (48 \<le> (of_char c :: nat) \<and> (of_char c :: nat) \<le> 57)"

definition digits_value :: "string \<Rightarrow> int" where
  "digits_value s = foldl (\<lambda>n c. 10 * n + (int (of_char c) - 48)) 0 s"

definition is_array_index :: "string \<Rightarrow> bool" where
  "is_array_index k =
     (k \<noteq> [] \<and> list_all is_digit k \<and> (k = ''0'' \<or> take 1 k \<noteq> ''0'')
      \<and> digits_value k \<le> 4294967294)"

fun obj_update :: "string \<Rightarrow> 'v \<Rightarrow> (string \<times> 'v) list \<Rightarrow> (string \<times> 'v) list" where
  "obj_update k v [] = [(k, v)]"
| "obj_update k v ((k', v') # e) =
     (if k' = k then (k, v) # e else (k', v') # obj_update k v e)"

definition own_properties :: "(string \<times> 'v) list \<Rightarrow> (string \<times> 'v) list" where
  "own_properties e =
     sort_key (\<lambda>kv. digits_value (fst kv)) (filter (\<lambda>kv. is_array_index (fst kv)) e)
       @ filter (\<lambda>kv. \<not> is_array_index (fst kv)) e"

section \<open>Record model\<close>

text \<open>
  The transaction record of \<^verbatim>\<open>types.ts\<close> (interface \<^verbatim>\<open>SalesData\<close>).  The field
  \<^verbatim>\<open>id\<close> is called \<open>trans_id\<close> here, since \<open>id\<close> is the identity function of HOL.
  The functions below are polymorphic in the record extension, as the spread
  \<^verbatim>\<open>{...trans}\<close> of the source keeps every further property an object may carry.
\<close>

record SalesData =
  trans_id :: string
  tanggal :: string
  nama_produk :: string
  jumlah_terjual :: jsnum
  harga_beli :: jsnum
  harga_jual :: jsnum
  total_penjualan :: jsnum
  total_biaya :: jsnum
  laba :: jsnum
  stok_sisa :: jsnum

text \<open>
  The error string of \<^verbatim>\<open>processAndValidateData\<close> interpolates four values: the product
  name, the date, the stock before the transaction and the quantity sold.  The model keeps
  the four values, not the rendered sentence.
\<close>

datatype validation_error = InsufficientStock string string jsnum jsnum

section \<open>Sorting by date\<close>

text \<open>
  \<^verbatim>\<open>new Date(s).getTime()\<close> is a library function of the language; it is the parameter
  \<open>getTime\<close>, which gives the time stamp of a date string, and \<open>None\<close> where the library
  gives NaN (a string that is no date).  The comparator
  \<^verbatim>\<open>(a, b) => getTime(a.tanggal) - getTime(b.tanggal)\<close> is positive exactly when both
  time stamps exist and the first is the later one (the rounded difference of two time
  stamps has the sign of the exact one); when one of them is NaN the comparator returns
  NaN, which \<^verbatim>\<open>Array.prototype.sort\<close> reads as \<open>+0\<close>.

  \<^verbatim>\<open>Array.prototype.sort\<close> is stable.  The model is the insertion sort that puts each
  element, from the last to the first, after the elements it comes after.  With dates
  that all parse this is the stable sort by time stamp; with others the comparator is no
  order and the language leaves the result to the implementation, of which this is one.
\<close>

definition comes_after :: "(string \<Rightarrow> int option) \<Rightarrow> 'a SalesData_scheme \<Rightarrow> 'a SalesData_scheme \<Rightarrow> bool" where
  "comes_after getTime a b =
     (case (getTime (tanggal a), getTime (tanggal b)) of
        (Some x, Some y) \<Rightarrow> y < x
      | _ \<Rightarrow> False)"

fun insert_sorted :: "('b \<Rightarrow> 'b \<Rightarrow> bool) \<Rightarrow> 'b \<Rightarrow> 'b list \<Rightarrow> 'b list" where
  "insert_sorted after x [] = [x]"
| "insert_sorted after x (y # ys) =
     (if after x y then y # insert_sorted after x ys else x # y # ys)"

definition sortedData :: "(string \<Rightarrow> int option) \<Rightarrow> 'a SalesData_scheme list \<Rightarrow> 'a SalesData_scheme list" where
  "sortedData getTime data = foldr (insert_sorted (comes_after getTime)) data []"

section \<open>Ledger replay: \<^verbatim>\<open>processAndValidateData\<close>\<close>

text \<open>
  The \<^verbatim>\<open>for (const trans of sortedData)\<close> loop, with the two pieces of state it mutates
  (\<^verbatim>\<open>currentStocks\<close> and \<^verbatim>\<open>processedData\<close>) passed explicitly.  The early \<^verbatim>\<open>return\<close>
  inside the loop gives the empty list and the error.  The loop variable \<^verbatim>\<open>trans\<close> is
  \<open>tx\<close> here (\<open>trans\<close> is a constant of HOL).  \<open>stockBeforeTransaction\<close> is the number that
  \<^verbatim>\<open>-\<close> makes of what was read from \<^verbatim>\<open>currentStocks\<close>; where the error is built it is an
  own number.
\<close>

fun replay_loop ::
  "(string \<rightharpoonup> jsnum) \<Rightarrow> 'a SalesData_scheme list \<Rightarrow> 'a SalesData_scheme list
     \<Rightarrow> 'a SalesData_scheme list \<times> validation_error option" where
  "replay_loop currentStocks processedData [] = (processedData, None)"
| "replay_loop currentStocks processedData (tx # rest) =
     (let productName = nama_produk tx;
          currentStocks1 =
            (if get_prop currentStocks productName = Absent
             then set_prop currentStocks productName (Fin 0) else currentStocks);
          stockBeforeTransaction = to_number (get_prop currentStocks1 productName);
          isStockAdjustment = (jumlah_terjual tx = Fin 0)
      in if isStockAdjustment then
           (let stockAfterTransaction = stok_sisa tx
            in replay_loop (set_prop currentStocks1 productName stockAfterTransaction)
                 (processedData @ [tx\<lparr>stok_sisa := stockAfterTransaction\<rparr>]) rest)
         else
           (let stockAfterTransaction = js_sub stockBeforeTransaction (jumlah_terjual tx)
            in if js_lt stockAfterTransaction (Fin 0) then
                 ([], Some (InsufficientStock productName (tanggal tx)
                              stockBeforeTransaction (jumlah_terjual tx)))
               else replay_loop (set_prop currentStocks1 productName stockAfterTransaction)
                      (processedData @ [tx\<lparr>stok_sisa := stockAfterTransaction\<rparr>]) rest))"

definition processAndValidateData ::
  "(string \<Rightarrow> int option) \<Rightarrow> 'a SalesData_scheme list \<Rightarrow> (string \<rightharpoonup> jsnum)
     \<Rightarrow> 'a SalesData_scheme list \<times> validation_error option" where
  "processAndValidateData getTime data initialStocks =
     replay_loop initialStocks [] (sortedData getTime data)"

section \<open>The fold that replay computes\<close>

text \<open>
  The functions of this section are not in the source: they say what the loop computes,
  and the properties below are stated with them.  Lemma \<open>replay_loop_eq\<close> ties the loop
  to them.

  \<open>stock_at S p\<close> is the number the loop takes for the stock of \<open>p\<close> in the state \<open>S\<close>: the
  own value, 0 for a product that is not there, NaN for an inherited name.  \<open>stock_step\<close>
  is one transaction's effect on the stock of its product: an adjustment
  (\<open>jumlah_terjual = 0\<close>) sets it, a sale subtracts from it.  \<open>overdraws\<close> is the test that
  stops replay.  \<open>of_product\<close> selects the transactions of one product, and
  \<open>product_stock\<close> folds them from the opening stock of the product.
\<close>

definition stock_at :: "(string \<rightharpoonup> jsnum) \<Rightarrow> string \<Rightarrow> jsnum" where
  "stock_at S p = (case get_prop S p of Own v \<Rightarrow> v | Inherited \<Rightarrow> NaN | Absent \<Rightarrow> Fin 0)"

definition stock_step :: "jsnum \<Rightarrow> 'a SalesData_scheme \<Rightarrow> jsnum" where
  "stock_step s t = (if jumlah_terjual t = Fin 0 then stok_sisa t else js_sub s (jumlah_terjual t))"

definition overdraws :: "jsnum \<Rightarrow> 'a SalesData_scheme \<Rightarrow> bool" where
  "overdraws s t = (jumlah_terjual t \<noteq> Fin 0 \<and> js_lt (js_sub s (jumlah_terjual t)) (Fin 0))"

definition of_product :: "string \<Rightarrow> 'a SalesData_scheme list \<Rightarrow> 'a SalesData_scheme list" where
  "of_product p ts = filter (\<lambda>t. nama_produk t = p) ts"

definition product_stock :: "(string \<rightharpoonup> jsnum) \<Rightarrow> 'a SalesData_scheme list \<Rightarrow> string \<Rightarrow> jsnum" where
  "product_stock S ts p = foldl stock_step (stock_at S p) (of_product p ts)"

text \<open>
  \<open>record_stock S t\<close> is the state after the transaction \<open>t\<close>, and \<open>stocks_after S ts\<close> the
  state after the transactions \<open>ts\<close>.  \<open>relabel\<close> rewrites \<open>stok_sisa\<close> of every
  transaction with the stock after it, without any check; \<open>first_overdraw\<close> is the error
  of the first sale that overdraws, if there is one.
\<close>

definition record_stock :: "(string \<rightharpoonup> jsnum) \<Rightarrow> 'a SalesData_scheme \<Rightarrow> (string \<rightharpoonup> jsnum)" where
  "record_stock S t = set_prop S (nama_produk t) (stock_step (stock_at S (nama_produk t)) t)"

definition stocks_after :: "(string \<rightharpoonup> jsnum) \<Rightarrow> 'a SalesData_scheme list \<Rightarrow> (string \<rightharpoonup> jsnum)" where
  "stocks_after S ts = foldl record_stock S ts"

fun relabel :: "(string \<rightharpoonup> jsnum) \<Rightarrow> 'a SalesData_scheme list \<Rightarrow> 'a SalesData_scheme list" where
  "relabel S [] = []"
| "relabel S (t # ts) =
     t\<lparr>stok_sisa := stock_step (stock_at S (nama_produk t)) t\<rparr> # relabel (record_stock S t) ts"

fun first_overdraw :: "(string \<rightharpoonup> jsnum) \<Rightarrow> 'a SalesData_scheme list \<Rightarrow> validation_error option" where
  "first_overdraw S [] = None"
| "first_overdraw S (t # ts) =
     (if overdraws (stock_at S (nama_produk t)) t
      then Some (InsufficientStock (nama_produk t) (tanggal t)
                   (stock_at S (nama_produk t)) (jumlah_terjual t))
      else first_overdraw (record_stock S t) ts)"

text \<open>
  \<open>stock_before S ts k\<close> is the stock of the product of \<open>ts ! k\<close> just before that
  transaction, as the loop holds it.  \<open>clear_stok\<close> blanks the stock field, to compare
  records in all their other fields.  \<open>plain_name S p\<close> says that \<open>p\<close> is a name the
  state \<open>S\<close> has, or a name that is not inherited: for such a product the stock the loop
  holds is the fold \<open>product_stock\<close>.
\<close>

definition stock_before :: "(string \<rightharpoonup> jsnum) \<Rightarrow> 'a SalesData_scheme list \<Rightarrow> nat \<Rightarrow> jsnum" where
  "stock_before S ts k = stock_at (stocks_after S (take k ts)) (nama_produk (ts ! k))"

definition clear_stok :: "'a SalesData_scheme \<Rightarrow> 'a SalesData_scheme" where
  "clear_stok t = t\<lparr>stok_sisa := Fin 0\<rparr>"

definition plain_name :: "(string \<rightharpoonup> 'v) \<Rightarrow> string \<Rightarrow> bool" where
  "plain_name S p = (S p \<noteq> None \<or> p \<notin> set ObjectPrototypeNames)"

text \<open>
  The last adjustment in a product's history, with the transactions after it; \<open>None\<close> when
  the history has sales only.  \<open>stock_base\<close> is the value the claims count from: that of
  the last adjustment, or the opening stock; \<open>sales_since\<close> are the transactions that
  follow it.  \<open>product_history\<close> is the history of a product in a transaction list: its
  transactions in the sorted list.
\<close>

fun last_adjustment ::
  "'a SalesData_scheme list \<Rightarrow> ('a SalesData_scheme \<times> 'a SalesData_scheme list) option" where
  "last_adjustment [] = None"
| "last_adjustment (t # ts) =
     (case last_adjustment ts of
        Some r \<Rightarrow> Some r
      | None \<Rightarrow> if jumlah_terjual t = Fin 0 then Some (t, ts) else None)"

definition product_history ::
  "(string \<Rightarrow> int option) \<Rightarrow> 'a SalesData_scheme list \<Rightarrow> string \<Rightarrow> 'a SalesData_scheme list" where
  "product_history getTime data p = of_product p (sortedData getTime data)"

definition stock_base :: "jsnum \<Rightarrow> 'a SalesData_scheme list \<Rightarrow> jsnum" where
  "stock_base opening h = (case last_adjustment h of None \<Rightarrow> opening | Some (a, suf) \<Rightarrow> stok_sisa a)"

definition sales_since :: "'a SalesData_scheme list \<Rightarrow> 'a SalesData_scheme list" where
  "sales_since h = (case last_adjustment h of None \<Rightarrow> h | Some (a, suf) \<Rightarrow> suf)"

text \<open>
  What the claims say of numbers: \<open>js_nonneg x\<close> is \<^verbatim>\<open>0 <= x\<close>; \<open>is_Fin\<close> are the
  finite numbers and \<open>num_val\<close> is their value; \<open>is_binary64 q\<close> says that the rational
  \<open>q\<close> is a binary64 number, so that a subtraction with the exact result \<open>q\<close> is not
  rounded; \<open>int_num k\<close> is the number of integer value \<open>k\<close>, \<open>is_int_num\<close> are the
  numbers of that form and \<open>int_val\<close> is their value.  Integers up to \<open>2^53\<close> in absolute
  value are binary64 numbers (lemma \<open>round64_int\<close>).  \<open>qty t\<close> is the quantity of a
  transaction as an integer, and \<open>running_total h n\<close> the sum of the first \<open>n\<close>
  quantities of \<open>h\<close>.
\<close>

definition js_nonneg :: "jsnum \<Rightarrow> bool" where
  "js_nonneg x = (case x of Fin q \<Rightarrow> 0 \<le> q | PosInf \<Rightarrow> True | NegInf \<Rightarrow> False | NaN \<Rightarrow> False)"

definition is_Fin :: "jsnum \<Rightarrow> bool" where
  "is_Fin x = (case x of Fin q \<Rightarrow> True | PosInf \<Rightarrow> False | NegInf \<Rightarrow> False | NaN \<Rightarrow> False)"

definition num_val :: "jsnum \<Rightarrow> rat" where
  "num_val x = (case x of Fin q \<Rightarrow> q | PosInf \<Rightarrow> 0 | NegInf \<Rightarrow> 0 | NaN \<Rightarrow> 0)"

definition is_binary64 :: "rat \<Rightarrow> bool" where
  "is_binary64 q = (round64 q = Fin q)"

definition int_num :: "int \<Rightarrow> jsnum" where
  "int_num k = Fin (of_int k)"

definition int_val :: "jsnum \<Rightarrow> int" where
  "int_val x = \<lfloor>num_val x\<rfloor>"

definition is_int_num :: "jsnum \<Rightarrow> bool" where
  "is_int_num x = (x = int_num (int_val x))"

definition qty :: "'a SalesData_scheme \<Rightarrow> int" where
  "qty t = int_val (jumlah_terjual t)"

definition running_total :: "'a SalesData_scheme list \<Rightarrow> nat \<Rightarrow> int" where
  "running_total h n = sum_list (map qty (take n h))"

section \<open>Stock inference: \<^verbatim>\<open>inferInitialStocks\<close>\<close>

text \<open>
  Step 1 of the source groups the transactions by product name in the object
  \<^verbatim>\<open>productTransactions\<close>.  Its own properties are an association list in insertion
  order: \<open>push_group\<close> is \<^verbatim>\<open>if (!o[name]) o[name] = []; o[name].push(trans)\<close> for a name
  that is an own property or is not there at all.  For a name that is not an own property
  but is inherited from \<^verbatim>\<open>Object.prototype\<close>, \<^verbatim>\<open>o[name]\<close> is a function or an object:
  no array is made, \<^verbatim>\<open>o[name].push\<close> is not a function, and the call throws a
  \<^verbatim>\<open>TypeError\<close> that nothing catches.
\<close>

datatype js_error = TypeError

fun push_group :: "string \<Rightarrow> 'b \<Rightarrow> (string \<times> 'b list) list \<Rightarrow> (string \<times> 'b list) list" where
  "push_group name x [] = [(name, [x])]"
| "push_group name x ((k, xs) # g) =
     (if k = name then (k, xs @ [x]) # g else (k, xs) # push_group name x g)"

fun productTransactions ::
  "(string \<times> 'a SalesData_scheme list) list \<Rightarrow> 'a SalesData_scheme list
     \<Rightarrow> js_error + (string \<times> 'a SalesData_scheme list) list" where
  "productTransactions g [] = Inr g"
| "productTransactions g (tx # rest) =
     (let name = nama_produk tx
      in if map_of g name = None \<and> name \<in> set ObjectPrototypeNames then Inl TypeError
         else productTransactions (push_group name tx g) rest)"

text \<open>
  The inner loop over one product's sorted transactions, with its two variables
  \<^verbatim>\<open>stockLevel\<close> and \<^verbatim>\<open>minStockLevel\<close> as a pair.
\<close>

definition min_stock_step :: "jsnum \<times> jsnum \<Rightarrow> 'a SalesData_scheme \<Rightarrow> jsnum \<times> jsnum" where
  "min_stock_step = (\<lambda>(stockLevel, minStockLevel) t.
     (let stockLevel1 = js_sub stockLevel (jumlah_terjual t)
      in (stockLevel1,
          if js_lt stockLevel1 minStockLevel then stockLevel1 else minStockLevel)))"

definition minStockLevel :: "(string \<Rightarrow> int option) \<Rightarrow> 'a SalesData_scheme list \<Rightarrow> jsnum" where
  "minStockLevel getTime pts =
     snd (foldl min_stock_step (Fin 0, Fin 0) (sortedData getTime pts))"


text \<open>
  Step 2: the \<^verbatim>\<open>for ... in\<close> loop over the products, skipping those for which
  \<^verbatim>\<open>existingInitialStocks[productName] !== undefined\<close>, building \<^verbatim>\<open>inferredStocks\<close>.
  \<open>infer_step\<close> is the body of the loop for one product.
\<close>

definition infer_step ::
  "(string \<Rightarrow> int option) \<Rightarrow> (string \<rightharpoonup> jsnum) \<Rightarrow> (string \<rightharpoonup> jsnum)
     \<Rightarrow> string \<times> 'a SalesData_scheme list \<Rightarrow> (string \<rightharpoonup> jsnum)" where
  "infer_step getTime existingInitialStocks inferredStocks entry =
     (case entry of (productName, pts) \<Rightarrow>
        if get_prop existingInitialStocks productName \<noteq> Absent then inferredStocks
        else set_prop inferredStocks productName (js_abs (minStockLevel getTime pts)))"

definition inferInitialStocks ::
  "(string \<Rightarrow> int option) \<Rightarrow> 'a SalesData_scheme list \<Rightarrow> (string \<rightharpoonup> jsnum)
     \<Rightarrow> js_error + (string \<rightharpoonup> jsnum)" where
  "inferInitialStocks getTime transactions existingInitialStocks =
     (case productTransactions [] transactions of
        Inl e \<Rightarrow> Inl e
      | Inr g \<Rightarrow>
          Inr (foldl (infer_step getTime existingInitialStocks) Map.empty (own_properties g)))"

section \<open>CSV codec: \<^verbatim>\<open>parseCSV\<close> and \<^verbatim>\<open>exportToCSV\<close>\<close>

text \<open>
  A text is a list of code units below 256.  \<^verbatim>\<open>String.prototype.trim\<close> removes white
  space and line terminators from both ends: in this range they are tab, line feed,
  vertical tab, form feed, carriage return, space and the no-break space.  \<open>split_on\<close> is
  \<^verbatim>\<open>split\<close> on a one-character separator.
\<close>

definition is_space :: "char \<Rightarrow> bool" where
  "is_space c = (c \<in> set [CHR '' '', CHR 0x09, CHR 0x0A, CHR 0x0B, CHR 0x0C, CHR 0x0D, CHR 0xA0])"

definition trim :: "string \<Rightarrow> string" where
  "trim s = rev (dropWhile is_space (rev (dropWhile is_space s)))"

fun split_acc :: "char \<Rightarrow> string \<Rightarrow> string \<Rightarrow> string list" where
  "split_acc d cur [] = [rev cur]"
| "split_acc d cur (c # cs) =
     (if c = d then rev cur # split_acc d [] cs else split_acc d (c # cur) cs)"

definition split_on :: "char \<Rightarrow> string \<Rightarrow> string list" where
  "split_on d s = split_acc d [] s"

text \<open>\<^verbatim>\<open>values[i]\<close>: \<^verbatim>\<open>undefined\<close> (here \<open>None\<close>) beyond the end of the array.\<close>

fun nth_opt :: "'b list \<Rightarrow> nat \<Rightarrow> 'b option" where
  "nth_opt [] i = None"
| "nth_opt (x # xs) 0 = Some x"
| "nth_opt (x # xs) (Suc i) = nth_opt xs i"

subsection \<open>\<^verbatim>\<open>parseFloat\<close>\<close>

text \<open>
  \<^verbatim>\<open>parseFloat\<close> skips leading white space and reads the longest prefix of what follows
  that is a decimal literal: an optional sign, then \<^verbatim>\<open>Infinity\<close>, or digits with an
  optional fraction, or a fraction alone, then an optional exponent (which counts only if
  it has a digit).  What comes after that prefix is ignored.  Without such a prefix the
  result is NaN; otherwise it is the binary64 number nearest to the decimal value.
  \<^verbatim>\<open>parseFloat(undefined)\<close> reads the text \<^verbatim>\<open>undefined\<close> and is NaN.
\<close>

definition pow10 :: "int \<Rightarrow> rat" where
  "pow10 k = (if 0 \<le> k then 10 ^ nat k else 1 / 10 ^ nat (- k))"

definition unsigned_part :: "string \<Rightarrow> string" where
  "unsigned_part t = (if take 1 t = ''-'' \<or> take 1 t = ''+'' then drop 1 t else t)"

definition exponent_part :: "string \<Rightarrow> int" where
  "exponent_part r =
     (if take 1 r = ''e'' \<or> take 1 r = ''E'' then
        (let ds = takeWhile is_digit (unsigned_part (drop 1 r))
         in if ds = [] then 0
            else if take 1 (drop 1 r) = ''-'' then - digits_value ds else digits_value ds)
      else 0)"

definition decimal_prefix :: "string \<Rightarrow> rat option" where
  "decimal_prefix r =
     (let ip = takeWhile is_digit r;
          r1 = dropWhile is_digit r;
          fp = (if take 1 r1 = ''.'' then takeWhile is_digit (drop 1 r1) else []);
          r2 = (if take 1 r1 = ''.'' then dropWhile is_digit (drop 1 r1) else r1)
      in if ip = [] \<and> fp = [] then None
         else Some (of_int (digits_value (ip @ fp)) * pow10 (exponent_part r2 - int (length fp))))"

definition parseFloat :: "string \<Rightarrow> jsnum" where
  "parseFloat s =
     (let t = dropWhile is_space s;
          r = unsigned_part t
      in if take 8 r = ''Infinity'' then (if take 1 t = ''-'' then NegInf else PosInf)
         else (case decimal_prefix r of
                 None \<Rightarrow> NaN
               | Some q \<Rightarrow> round64 (if take 1 t = ''-'' then - q else q)))"

definition numValue :: "string option \<Rightarrow> jsnum" where
  "numValue v = (case v of None \<Rightarrow> NaN | Some s \<Rightarrow> parseFloat s)"

subsection \<open>Row objects\<close>

text \<open>
  \<^verbatim>\<open>parseCSV\<close> builds each row as an object of type \<^verbatim>\<open>any\<close>, with one property per
  header cell, and only then casts it to \<^verbatim>\<open>SalesData\<close>.  Such an object is an
  association list from the names of its own properties to their values, in the order
  in which they were made.  \<open>obj_set\<close> is the assignment \<^verbatim>\<open>entry[key] = value\<close> of a
  string, a number or \<^verbatim>\<open>undefined\<close>: it makes or updates an own property, except for
  the name \<^verbatim>\<open>__proto__\<close> when that is not an own property, where the setter inherited
  from \<^verbatim>\<open>Object.prototype\<close> runs and does nothing for such a value.
  \<^verbatim>\<open>Object.keys\<close>, \<^verbatim>\<open>Object.values\<close> and the spread go through the own properties
  in the order \<open>own_properties\<close>.
\<close>

datatype jsval = Num jsnum | Str string | Undefined

type_synonym entry = "(string \<times> jsval) list"

definition obj_set :: "string \<Rightarrow> jsval \<Rightarrow> entry \<Rightarrow> entry" where
  "obj_set k v e = (if k = ''__proto__'' \<and> map_of e k = None then e else obj_update k v e)"

definition obj_get :: "entry \<Rightarrow> string \<Rightarrow> jsval" where
  "obj_get e k = (case map_of e k of None \<Rightarrow> Undefined | Some v \<Rightarrow> v)"

subsection \<open>\<^verbatim>\<open>parseCSV\<close>\<close>

datatype parse_error = EmptyCsv | MissingHeaders "string list" | InvalidValue nat string

definition requiredHeaders :: "string list" where
  "requiredHeaders = [''tanggal'', ''nama_produk'', ''jumlah_terjual'', ''harga_beli'',
     ''harga_jual'', ''total_penjualan'', ''total_biaya'', ''laba'', ''stok_sisa'']"

definition numericColumns :: "string list" where
  "numericColumns = [''jumlah_terjual'', ''harga_beli'', ''harga_jual'', ''total_penjualan'',
     ''total_biaya'', ''laba'', ''stok_sisa'']"

definition strValue :: "string option \<Rightarrow> jsval" where
  "strValue v = (case v of None \<Rightarrow> Undefined | Some s \<Rightarrow> Str s)"

text \<open>
  \<^verbatim>\<open>header.forEach((h, i) => ...)\<close> on one line: \<open>i\<close> is the column position, \<open>index\<close>
  the position of the line among the data lines.  The \<^verbatim>\<open>throw\<close> is the \<open>Inl\<close> result.
\<close>

fun fill_entry ::
  "nat \<Rightarrow> string list \<Rightarrow> nat \<Rightarrow> string list \<Rightarrow> entry \<Rightarrow> parse_error + entry" where
  "fill_entry index values i [] entry = Inr entry"
| "fill_entry index values i (h # hs) entry =
     (let v = nth_opt values i
      in if h \<in> set numericColumns then
           (if numValue v = NaN then Inl (InvalidValue (index + 2) h)
            else fill_entry index values (Suc i) hs (obj_set h (Num (numValue v)) entry))
         else fill_entry index values (Suc i) hs (obj_set h (strValue v) entry))"

definition cells :: "string \<Rightarrow> string list" where
  "cells line = map trim (split_on CHR '','' line)"

text \<open>
  The identifier \<^verbatim>\<open>id_csv_${Date.now()}_${Math.random()}_${index}\<close> depends on the clock
  and on the random generator: it is the parameter \<open>newId\<close>, a function of the index.
\<close>

definition parse_line :: "(nat \<Rightarrow> string) \<Rightarrow> string list \<Rightarrow> nat \<Rightarrow> string \<Rightarrow> parse_error + entry" where
  "parse_line newId header index line =
     fill_entry index (cells line) 0 header [(''id'', Str (newId index))]"

text \<open>\<^verbatim>\<open>lines.slice(1).map(...)\<close>, left to right; the first \<^verbatim>\<open>throw\<close> ends it.\<close>

fun map_lines ::
  "(nat \<Rightarrow> string) \<Rightarrow> string list \<Rightarrow> nat \<Rightarrow> string list \<Rightarrow> parse_error + entry list" where
  "map_lines newId header index [] = Inr []"
| "map_lines newId header index (line # rest) =
     (case parse_line newId header index line of
        Inl e \<Rightarrow> Inl e
      | Inr entry \<Rightarrow>
          (case map_lines newId header (Suc index) rest of
             Inl e \<Rightarrow> Inl e
           | Inr es \<Rightarrow> Inr (entry # es)))"

definition csv_lines :: "string \<Rightarrow> string list" where
  "csv_lines text = filter (\<lambda>line. trim line \<noteq> []) (split_on CHR ''\<newline>'' (trim text))"

definition csv_header :: "string \<Rightarrow> string list" where
  "csv_header text = (case csv_lines text of [] \<Rightarrow> [] | l # _ \<Rightarrow> cells l)"

definition csv_rows :: "string \<Rightarrow> string list" where
  "csv_rows text = tl (csv_lines text)"

definition parseCSV :: "(nat \<Rightarrow> string) \<Rightarrow> string \<Rightarrow> entry list \<times> parse_error option" where
  "parseCSV newId text =
     (if length (csv_lines text) < 2 then ([], Some EmptyCsv)
      else
        (let header = csv_header text;
             missingHeaders = filter (\<lambda>rh. rh \<notin> set header) requiredHeaders
         in if length missingHeaders > 0 then ([], Some (MissingHeaders missingHeaders))
            else
              (case map_lines newId header 0 (csv_rows text) of
                 Inl e \<Rightarrow> ([], Some e)
               | Inr data \<Rightarrow> (data, None))))"

text \<open>
  What the claims say of cells.  \<open>cell text r i\<close> is the cell of data line \<open>r\<close> in column
  \<open>i\<close>, \<open>None\<close> when the line is too short.  \<open>starts_number s\<close> holds when, after leading
  white space and an optional sign, \<open>s\<close> goes on with \<^verbatim>\<open>Infinity\<close>, with a digit, or with
  a point and a digit.  \<open>numeric_text s\<close> follows the words of the specification, ``a
  numeric value'': the whole of \<open>s\<close> is a sign, digits and a fraction, with nothing left.
  \<open>unreadable_cell text r i\<close> is a cell of a numeric column that is missing or does not
  start with a number.
\<close>

definition cell :: "string \<Rightarrow> nat \<Rightarrow> nat \<Rightarrow> string option" where
  "cell text r i = nth_opt (cells (csv_rows text ! r)) i"

definition starts_number :: "string \<Rightarrow> bool" where
  "starts_number s =
     (let r = unsigned_part (dropWhile is_space s)
      in take 8 r = ''Infinity''
         \<or> (case r of
               [] \<Rightarrow> False
             | c # cs \<Rightarrow> is_digit c \<or> (c = CHR ''.'' \<and> (case cs of [] \<Rightarrow> False | d # ds \<Rightarrow> is_digit d))))"

definition numeric_text :: "string \<Rightarrow> bool" where
  "numeric_text s =
     (let r = unsigned_part s;
          ip = takeWhile is_digit r;
          r1 = dropWhile is_digit r
      in (r1 = [] \<and> ip \<noteq> [])
         \<or> (take 1 r1 = ''.'' \<and> list_all is_digit (drop 1 r1) \<and> (ip \<noteq> [] \<or> drop 1 r1 \<noteq> [])))"

definition unreadable_cell :: "string \<Rightarrow> nat \<Rightarrow> nat \<Rightarrow> bool" where
  "unreadable_cell text r i =
     (r < length (csv_rows text) \<and> i < length (csv_header text)
      \<and> csv_header text ! i \<in> set numericColumns
      \<and> (case cell text r i of None \<Rightarrow> True | Some s \<Rightarrow> \<not> starts_number s))"

subsection \<open>The cast to \<^verbatim>\<open>SalesData\<close> and \<^verbatim>\<open>exportToCSV\<close>\<close>

text \<open>
  The cast \<^verbatim>\<open>entry as SalesData\<close> changes nothing at run time: the typed fields are what
  reading the properties gives, and the object stays whole in the extension of the
  record.  A numeric property that is not there is \<^verbatim>\<open>undefined\<close>, which arithmetic
  takes as NaN and \<^verbatim>\<open>=== 0\<close> as different from 0.  A string property that is
  \<^verbatim>\<open>undefined\<close> reads as the text \<^verbatim>\<open>undefined\<close>, which is what a property key, a
  template string and \<^verbatim>\<open>new Date\<close> make of it.
\<close>

definition num_field :: "entry \<Rightarrow> string \<Rightarrow> jsnum" where
  "num_field e k = (case obj_get e k of Num n \<Rightarrow> n | Str s \<Rightarrow> NaN | Undefined \<Rightarrow> NaN)"

definition str_field :: "entry \<Rightarrow> string \<Rightarrow> string" where
  "str_field e k = (case obj_get e k of Str s \<Rightarrow> s | Num n \<Rightarrow> ''undefined'' | Undefined \<Rightarrow> ''undefined'')"

definition as_SalesData :: "entry \<Rightarrow> entry SalesData_scheme" where
  "as_SalesData e =
     \<lparr>trans_id = str_field e ''id'',
      tanggal = str_field e ''tanggal'',
      nama_produk = str_field e ''nama_produk'',
      jumlah_terjual = num_field e ''jumlah_terjual'',
      harga_beli = num_field e ''harga_beli'',
      harga_jual = num_field e ''harga_jual'',
      total_penjualan = num_field e ''total_penjualan'',
      total_biaya = num_field e ''total_biaya'',
      laba = num_field e ''laba'',
      stok_sisa = num_field e ''stok_sisa'',
      \<dots> = e\<rparr>"

text \<open>
  The object behind a replayed record: \<^verbatim>\<open>{...trans, stok_sisa: stockAfterTransaction}\<close>.
\<close>

definition as_entry :: "entry SalesData_scheme \<Rightarrow> entry" where
  "as_entry t = obj_update ''stok_sisa'' (Num (stok_sisa t)) (own_properties (SalesData.more t))"

text \<open>
  \<^verbatim>\<open>exportToCSV\<close> up to the table it joins into text: the header cells are the keys of the
  first record without \<^verbatim>\<open>id\<close>, each row the values of a record without that of \<^verbatim>\<open>id\<close>.
  Nothing is exported for an empty list.
\<close>

definition Object_keys :: "entry \<Rightarrow> string list" where
  "Object_keys e = map fst (own_properties e)"

definition Object_values :: "entry \<Rightarrow> jsval list" where
  "Object_values e = map snd (own_properties e)"

definition export_header :: "entry list \<Rightarrow> string list" where
  "export_header data = filter (\<lambda>k. k \<noteq> ''id'') (Object_keys (hd data))"

definition export_row :: "entry \<Rightarrow> jsval list" where
  "export_row row = Object_values (filter (\<lambda>kv. fst kv \<noteq> ''id'') row)"

definition exportToCSV :: "entry list \<Rightarrow> (string list \<times> jsval list list) option" where
  "exportToCSV data =
     (if length data = 0 then None else Some (export_header data, map export_row data))"

section \<open>Concrete parameters for evaluation\<close>

text \<open>
  Where a statement is evaluated on concrete data, the date parameter is \<open>iso_time\<close>: on
  a date written \<^verbatim>\<open>YYYY-MM-DD\<close> it is the number spelled by the eight digits, which orders
  such dates as their time stamps do, and on any other string it is \<open>None\<close>, as for the
  word \<^verbatim>\<open>kemarin\<close>, which \<^verbatim>\<open>new Date\<close> does not read as a date.
\<close>

definition iso_time :: "string \<Rightarrow> int option" where
  "iso_time s =
     (if length s = 10 \<and> list_all is_digit (take 4 s) \<and> take 1 (drop 4 s) = ''-''
         \<and> list_all is_digit (take 2 (drop 5 s)) \<and> take 1 (drop 7 s) = ''-''
         \<and> list_all is_digit (drop 8 s)
      then Some (digits_value (filter is_digit s)) else None)"

definition example_row :: "string \<Rightarrow> string \<Rightarrow> string \<Rightarrow> jsnum \<Rightarrow> jsnum \<Rightarrow> SalesData" where
  "example_row i d p q s =
     \<lparr>trans_id = i, tanggal = d, nama_produk = p, jumlah_terjual = q, harga_beli = Fin 0,
      harga_jual = Fin 0, total_penjualan = Fin 0, total_biaya = Fin 0, laba = Fin 0,
      stok_sisa = s\<rparr>"

text \<open>
  The header line of the format guide, and the object parsed from an adjustment line.
\<close>

definition example_header :: string where
  "example_header = ''tanggal,nama_produk,jumlah_terjual,harga_beli,harga_jual,total_penjualan,total_biaya,laba,stok_sisa''"

definition parsed_adjustment :: "jsnum \<Rightarrow> entry" where
  "parsed_adjustment n =
     [(''id'', Str ''row''), (''tanggal'', Str ''2024-01-01''), (''nama_produk'', Str ''A''),
      (''jumlah_terjual'', Num (Fin 0)), (''harga_beli'', Num (Fin 0)), (''harga_jual'', Num (Fin 0)),
      (''total_penjualan'', Num (Fin 0)), (''total_biaya'', Num (Fin 0)), (''laba'', Num (Fin 0)),
      (''stok_sisa'', Num n)]"

section \<open>Numbers: integers are exact\<close>

declare fun_upd_apply [simp del]

lemma bitlen_nonneg: "0 \<le> bitlen n"
proof (induction n rule: bitlen.induct)
  case (1 n)
  show ?case
  proof (cases "n \<le> 0")
    case True
    then show ?thesis by (subst bitlen.simps) simp
  next
    case False
    with "1.IH" have "0 \<le> bitlen (n div 2)" by simp
    with False show ?thesis by (subst bitlen.simps) simp
  qed
qed

lemma bitlen_step: "0 < n \<Longrightarrow> bitlen n = 1 + bitlen (n div 2)"
  by (subst bitlen.simps) simp

lemma bitlen_bounds:
  "0 < n \<Longrightarrow> 2 ^ nat (bitlen n - 1) \<le> n \<and> n < 2 ^ nat (bitlen n)"
proof (induction n rule: bitlen.induct)
  case (1 n)
  from "1.prems" have step: "bitlen n = 1 + bitlen (n div 2)"
    by (rule bitlen_step)
  show ?case
  proof (cases "n div 2 \<le> 0")
    case True
    with "1.prems" have n1: "n = 1" by presburger
    have "bitlen (1 div 2) = 0" by (subst bitlen.simps) simp
    with step n1 show ?thesis by simp
  next
    case False
    then have pos: "0 < n div 2" by simp
    from "1.prems" have "\<not> n \<le> 0" by simp
    from "1.IH" [OF this pos]
    have lo: "2 ^ nat (bitlen (n div 2) - 1) \<le> n div 2"
      and hi: "n div 2 < 2 ^ nat (bitlen (n div 2))"
      by simp_all
    from pos have b1: "1 \<le> bitlen (n div 2)"
      using bitlen_step [OF pos] bitlen_nonneg [of "n div 2 div 2"] by simp
    then have split: "(2::int) ^ nat (bitlen (n div 2)) = 2 * 2 ^ nat (bitlen (n div 2) - 1)"
      by (metis Suc_nat_eq_nat_zadd1 add.commute diff_add_cancel diff_ge_0_iff_ge power_Suc)
    have a: "2 * (n div 2) \<le> n" "n \<le> 2 * (n div 2) + 1"
      by presburger+
    from lo a(1) have c1: "2 ^ nat (bitlen (n div 2)) \<le> n"
      unfolding split by linarith
    from hi a(2) have c2: "n < 2 * 2 ^ nat (bitlen (n div 2))"
      by linarith
    have e1: "nat (bitlen n - 1) = nat (bitlen (n div 2))"
      by (simp add: step)
    have e2: "nat (bitlen n) = Suc (nat (bitlen (n div 2)))"
      using b1 by (simp add: step nat_add_distrib)
    from c1 c2 show ?thesis
      by (simp add: e1 e2)
  qed
qed

lemma round_half_even_int [simp]: "round_half_even (of_int j) = j"
  by (simp add: round_half_even_def)

lemma pow2_nonneg: "0 \<le> k \<Longrightarrow> pow2 k = of_int (2 ^ nat k)"
  by (simp add: pow2_def)

lemma pow2_neg: "0 \<le> k \<Longrightarrow> pow2 (- k) = 1 / of_int (2 ^ nat k)"
  by (auto simp: pow2_def)

lemma round_pos_int:
  assumes k: "1 \<le> k" "k \<le> 2 ^ 53"
  shows "round_pos (of_int k) = Fin (of_int k)"
proof -
  let ?e = "bitlen k - 1"
  from k have pos: "0 < k" by simp
  have fl: "flog2 (of_int k) = ?e"
    using k by (simp add: flog2_def)
  from bitlen_bounds [OF pos] have lo: "2 ^ nat ?e \<le> k" and hi: "k < 2 ^ nat (bitlen k)"
    by simp_all
  have e0: "0 \<le> ?e"
    using bitlen_step [OF pos] bitlen_nonneg [of "k div 2"] by simp
  have e53: "?e \<le> 53"
  proof (rule ccontr)
    assume "\<not> ?e \<le> 53"
    then have "54 \<le> nat ?e" by simp
    then have "(2::int) ^ 54 \<le> 2 ^ nat ?e"
      by (intro power_increasing) simp_all
    with lo k(2) show False by simp
  qed
  have mx: "max (flog2 (of_int k)) (- 1022) = ?e"
    using e0 by (simp add: fl)
  have small: "\<not> pow2 1024 \<le> (of_int k :: rat)"
  proof -
    have "(of_int k :: rat) \<le> of_int (2 ^ 53)"
      using k(2) by (simp only: of_int_le_iff)
    also have "\<dots> < of_int (2 ^ 1024)"
      by (simp only: of_int_less_iff) (rule power_strict_increasing, simp_all)
    finally show ?thesis
      by (simp add: pow2_def)
  qed
  show ?thesis
  proof (cases "?e \<le> 52")
    case True
    then have n: "0 \<le> 52 - ?e" by simp
    have p: "pow2 (52 - ?e) = of_int (2 ^ nat (52 - ?e))"
      by (rule pow2_nonneg [OF n])
    have q: "pow2 (?e - 52) = 1 / of_int (2 ^ nat (52 - ?e))"
      using pow2_neg [OF n] by (simp only: minus_diff_eq)
    have sc: "of_int k * pow2 (52 - ?e) = (of_int (k * 2 ^ nat (52 - ?e)) :: rat)"
      by (simp only: p of_int_mult)
    have nz: "(of_int (2 ^ nat (52 - ?e)) :: rat) \<noteq> 0"
      by simp
    have restore: "(of_int (k * 2 ^ nat (52 - ?e)) :: rat) * pow2 (?e - 52) = of_int k"
      unfolding q of_int_mult times_divide_eq_right mult_1_right
      by (rule nonzero_mult_div_cancel_right [OF nz])
    show ?thesis
      unfolding round_pos_def mx Let_def sc round_half_even_int restore
      using small by simp
  next
    case False
    with e53 have e: "?e = 53" by simp
    with lo have "2 ^ 53 \<le> k" by simp
    with k(2) have k53: "k = 2 ^ 53" by simp
    have down: "pow2 (52 - ?e) = 1 / 2"
      by (simp only: e) (simp add: pow2_def)
    have up: "pow2 (?e - 52) = 2"
      by (simp only: e) (simp add: pow2_def)
    have kr: "(of_int k :: rat) = 2 ^ 53"
      by (simp only: k53) simp
    have sc: "of_int k * pow2 (52 - ?e) = (of_int (2 ^ 52) :: rat)"
      unfolding down kr by simp
    have restore: "(of_int (2 ^ 52) :: rat) * pow2 (?e - 52) = of_int k"
      unfolding up kr by simp
    show ?thesis
      unfolding round_pos_def mx Let_def sc round_half_even_int restore
      using small by simp
  qed
qed

lemma round64_int:
  assumes "\<bar>k\<bar> \<le> 2 ^ 53"
  shows "round64 (of_int k) = Fin (of_int k)"
proof -
  consider "k = 0" | "1 \<le> k" | "1 \<le> - k" by linarith
  then show ?thesis
  proof cases
    case 1
    then show ?thesis by (simp add: round64_def)
  next
    case 2
    with assms have "k \<le> 2 ^ 53" by simp
    from round_pos_int [OF 2 this] 2 show ?thesis
      by (simp add: round64_def)
  next
    case 3
    with assms have "- k \<le> 2 ^ 53" by simp
    from round_pos_int [OF 3 this] 3 show ?thesis
      by (simp add: round64_def js_neg_def)
  qed
qed

lemma round_pos_not_NaN: "round_pos a \<noteq> NaN"
  by (simp add: round_pos_def Let_def)

lemma round64_not_NaN: "round64 q \<noteq> NaN"
  using round_pos_not_NaN [of q] round_pos_not_NaN [of "- q"]
  by (simp add: round64_def js_neg_def split: jsnum.splits)

lemma js_sub_NaN_iff:
  "js_sub s q = NaN \<longleftrightarrow>
     s = NaN \<or> q = NaN \<or> (s = PosInf \<and> q = PosInf) \<or> (s = NegInf \<and> q = NegInf)"
  by (cases s; cases q) (simp_all add: round64_not_NaN)

lemma js_nonneg_iff: "js_nonneg v \<longleftrightarrow> v \<noteq> NaN \<and> \<not> js_lt v (Fin 0)"
  by (cases v) (auto simp: js_nonneg_def)

lemma floor_rat_numeral_div [simp]:
  "\<lfloor>numeral a / numeral b :: rat\<rfloor> = numeral a div numeral b"
  using floor_divide_of_int_eq [of "numeral a" "numeral b", where ?'a = rat] by simp

lemma int_num_0 [simp]: "int_num 0 = Fin 0"
  by (simp add: int_num_def)

lemma int_num_eq_iff [simp]: "int_num a = int_num b \<longleftrightarrow> a = b"
  by (simp add: int_num_def)

lemma int_val_int_num [simp]: "int_val (int_num k) = k"
  by (simp add: int_val_def int_num_def num_val_def)

lemma is_int_num_int_num [simp]: "is_int_num (int_num k)"
  by (simp add: is_int_num_def)



lemma js_lt_int [simp]: "js_lt (int_num a) (int_num b) \<longleftrightarrow> a < b"
  by (simp add: int_num_def)

lemma js_lt_int_0 [simp]: "js_lt (int_num a) (Fin 0) \<longleftrightarrow> a < 0"
  using js_lt_int [of a 0] by (simp del: js_lt_int)

lemma js_nonneg_int [simp]: "js_nonneg (int_num a) \<longleftrightarrow> 0 \<le> a"
  by (simp add: int_num_def js_nonneg_def)

lemma js_abs_int [simp]: "js_abs (int_num a) = int_num \<bar>a\<bar>"
  by (simp add: int_num_def js_abs_def)

lemma int_num_eq_Fin_0 [simp]: "int_num a = Fin 0 \<longleftrightarrow> a = 0"
  using int_num_eq_iff [of a 0] by (simp del: int_num_eq_iff)

lemma is_binary64_int: "\<bar>k\<bar> \<le> 2 ^ 53 \<Longrightarrow> is_binary64 (of_int k)"
  by (simp add: is_binary64_def round64_int)

section \<open>Objects\<close>

lemma proto_inherited: "''__proto__'' \<in> set ObjectPrototypeNames"
  by (simp add: ObjectPrototypeNames_def)

lemma stock_at_plain:
  "plain_name S p \<Longrightarrow> stock_at S p = (case S p of None \<Rightarrow> Fin 0 | Some v \<Rightarrow> v)"
  by (auto simp: plain_name_def stock_at_def get_prop_def split: option.splits)

lemma set_prop_plain: "plain_name S p \<Longrightarrow> set_prop S p v = S(p \<mapsto> v)"
  using proto_inherited by (auto simp: plain_name_def set_prop_def)

lemma stock_at_set_prop:
  "stock_at (set_prop S p v) q =
     (if q = p \<and> (p \<noteq> ''__proto__'' \<or> S p \<noteq> None) then v else stock_at S q)"
  by (auto simp: stock_at_def get_prop_def set_prop_def fun_upd_apply split: option.splits)

lemma plain_name_set_prop:
  "plain_name S q \<Longrightarrow> plain_name (set_prop S p v) q"
  by (auto simp: plain_name_def set_prop_def fun_upd_apply)

lemma plain_name_set_prop_same:
  "plain_name S p \<Longrightarrow> set_prop S p v p = Some v"
  by (simp add: set_prop_plain fun_upd_apply)

section \<open>Replay as relabelling\<close>

lemma stock_before_read:
  "to_number (get_prop (if get_prop S p = Absent then set_prop S p (Fin 0) else S) p)
     = stock_at S p"
  using proto_inherited
  by (auto simp: stock_at_def get_prop_def set_prop_def to_number_def fun_upd_apply
      split: option.splits if_splits)

lemma stock_after_write:
  "set_prop (if get_prop S p = Absent then set_prop S p (Fin 0) else S) p v = set_prop S p v"
  using proto_inherited
  by (auto simp: get_prop_def set_prop_def fun_upd_apply split: option.splits if_splits)

lemma replay_loop_Cons:
  "replay_loop S acc (t # ts) =
     (if overdraws (stock_at S (nama_produk t)) t
      then ([], Some (InsufficientStock (nama_produk t) (tanggal t)
                   (stock_at S (nama_produk t)) (jumlah_terjual t)))
      else replay_loop (record_stock S t)
             (acc @ [t\<lparr>stok_sisa := stock_step (stock_at S (nama_produk t)) t\<rparr>]) ts)"
  by (simp add: Let_def overdraws_def stock_step_def record_stock_def
      stock_before_read stock_after_write)

lemma replay_loop_eq:
  "replay_loop S acc ts =
     (case first_overdraw S ts of
        None \<Rightarrow> (acc @ relabel S ts, None)
      | Some e \<Rightarrow> ([], Some e))"
proof (induction ts arbitrary: S acc)
  case Nil
  show ?case by simp
next
  case (Cons t ts)
  show ?case
    unfolding replay_loop_Cons
    by (simp add: Cons.IH split: option.splits)
qed

lemma processAndValidateData_eq:
  "processAndValidateData getTime data S =
     (case first_overdraw S (sortedData getTime data) of
        None \<Rightarrow> (relabel S (sortedData getTime data), None)
      | Some e \<Rightarrow> ([], Some e))"
  by (simp add: processAndValidateData_def replay_loop_eq split: option.splits)

lemma replay_success_iff:
  "processAndValidateData getTime data S = (out, None) \<longleftrightarrow>
     first_overdraw S (sortedData getTime data) = None \<and> out = relabel S (sortedData getTime data)"
  by (auto simp: processAndValidateData_eq split: option.splits)

lemma replay_failure_iff:
  "processAndValidateData getTime data S = (out, Some e) \<longleftrightarrow>
     first_overdraw S (sortedData getTime data) = Some e \<and> out = []"
  by (auto simp: processAndValidateData_eq split: option.splits)


lemma relabel_length [simp]: "length (relabel S ts) = length ts"
  by (induction ts arbitrary: S) simp_all

lemma relabel_clear: "map clear_stok (relabel S ts) = map clear_stok ts"
  by (induction ts arbitrary: S) (simp_all add: clear_stok_def)

lemma stocks_after_Nil [simp]: "stocks_after S [] = S"
  by (simp add: stocks_after_def)

lemma stocks_after_Cons [simp]: "stocks_after S (t # ts) = stocks_after (record_stock S t) ts"
  by (simp add: stocks_after_def)

lemma stock_before_0 [simp]: "stock_before S (t # ts) 0 = stock_at S (nama_produk t)"
  by (simp add: stock_before_def)

lemma stock_before_Suc [simp]:
  "stock_before S (t # ts) (Suc k) = stock_before (record_stock S t) ts k"
  by (simp add: stock_before_def)

lemma relabel_nth:
  "k < length ts \<Longrightarrow>
     relabel S ts ! k =
       (ts ! k)\<lparr>stok_sisa := stock_step (stock_before S ts k) (ts ! k)\<rparr>"
proof (induction ts arbitrary: S k)
  case Nil
  then show ?case by simp
next
  case (Cons t ts)
  show ?case
  proof (cases k)
    case 0
    then show ?thesis by simp
  next
    case (Suc j)
    with Cons.prems have "j < length ts" by simp
    from Cons.IH [OF this] Suc show ?thesis
      by simp
  qed
qed

lemma first_overdraw_None_iff:
  "first_overdraw S ts = None \<longleftrightarrow>
     (\<forall>k<length ts. \<not> overdraws (stock_before S ts k) (ts ! k))"
proof (induction ts arbitrary: S)
  case Nil
  show ?case by simp
next
  case (Cons t ts)
  show ?case
    by (simp add: Cons.IH All_less_Suc2)
qed

lemma first_overdraw_Some:
  "first_overdraw S ts = Some e \<Longrightarrow>
     \<exists>k<length ts.
        e = InsufficientStock (nama_produk (ts ! k)) (tanggal (ts ! k))
              (stock_before S ts k) (jumlah_terjual (ts ! k))
      \<and> overdraws (stock_before S ts k) (ts ! k)
      \<and> (\<forall>i<k. \<not> overdraws (stock_before S ts i) (ts ! i))"
proof (induction ts arbitrary: S)
  case Nil
  then show ?case by simp
next
  case (Cons t ts)
  let ?S' = "record_stock S t"
  show ?case
  proof (cases "overdraws (stock_at S (nama_produk t)) t")
    case True
    with Cons.prems have "e = InsufficientStock (nama_produk t) (tanggal t)
        (stock_at S (nama_produk t)) (jumlah_terjual t)"
      by simp
    with True show ?thesis
      by (intro exI [of _ 0]) simp
  next
    case False
    with Cons.prems have "first_overdraw ?S' ts = Some e"
      by simp
    from Cons.IH [OF this] obtain k where k: "k < length ts"
      "e = InsufficientStock (nama_produk (ts ! k)) (tanggal (ts ! k))
              (stock_before ?S' ts k) (jumlah_terjual (ts ! k))"
      "overdraws (stock_before ?S' ts k) (ts ! k)"
      "\<forall>i<k. \<not> overdraws (stock_before ?S' ts i) (ts ! i)"
      by blast
    have "\<forall>i<Suc k. \<not> overdraws (stock_before S (t # ts) i) ((t # ts) ! i)"
      using k(4) False by (simp add: All_less_Suc2)
    with k(1,2,3) show ?thesis
      by (intro exI [of _ "Suc k"]) simp
  qed
qed

lemma tanggal_relabel: "map tanggal (relabel S ts) = map tanggal ts"
  by (induction ts arbitrary: S) simp_all

lemma ids_relabel: "map trans_id (relabel S ts) = map trans_id ts"
  by (induction ts arbitrary: S) simp_all




section \<open>Sorting by date\<close>

lemma mset_insert_sorted [simp]: "mset (insert_sorted after x ys) = add_mset x (mset ys)"
  by (induction ys) simp_all

lemma mset_sortedData [simp]: "mset (sortedData getTime data) = mset data"
  by (induction data) (simp_all add: sortedData_def)

lemma set_sortedData [simp]: "set (sortedData getTime data) = set data"
  using mset_sortedData [of getTime data] by (metis set_mset_mset)

lemma length_sortedData [simp]: "length (sortedData getTime data) = length data"
  using mset_sortedData [of getTime data] by (metis size_mset)

lemma sortedData_Cons:
  "sortedData getTime (x # xs) = insert_sorted (comes_after getTime) x (sortedData getTime xs)"
  by (simp add: sortedData_def)

lemma sortedData_Nil [simp]: "sortedData getTime [] = []"
  by (simp add: sortedData_def)

text \<open>
  A list is in place when no element comes after its right neighbour; sorting gives such
  a list and leaves such a list as it is.
\<close>

lemma comes_after_asym: "comes_after getTime a b \<Longrightarrow> \<not> comes_after getTime b a"
  by (auto simp: comes_after_def split: option.splits)

lemma insert_sorted_in_place:
  assumes "successively (\<lambda>a b. \<not> comes_after getTime a b) ys"
  shows "successively (\<lambda>a b. \<not> comes_after getTime a b) (insert_sorted (comes_after getTime) x ys)"
  using assms
proof (induction ys)
  case Nil
  show ?case by simp
next
  case (Cons y ys)
  show ?case
  proof (cases "comes_after getTime x y")
    case False
    with Cons.prems show ?thesis by simp
  next
    case True
    from Cons.prems have tl: "successively (\<lambda>a b. \<not> comes_after getTime a b) ys"
      by (cases ys) simp_all
    note ih = Cons.IH [OF tl]
    show ?thesis
    proof (cases ys)
      case Nil
      with True show ?thesis by (simp add: comes_after_asym)
    next
      case (Cons z zs)
      with Cons.prems True ih show ?thesis
        by (auto simp: comes_after_asym)
    qed
  qed
qed

lemma sortedData_in_place:
  "successively (\<lambda>a b. \<not> comes_after getTime a b) (sortedData getTime data)"
  by (induction data) (simp_all add: sortedData_Cons insert_sorted_in_place)

lemma sortedData_id:
  "successively (\<lambda>a b. \<not> comes_after getTime a b) xs \<Longrightarrow> sortedData getTime xs = xs"
proof (induction xs)
  case Nil
  show ?case by simp
next
  case (Cons x xs)
  from Cons.prems have "successively (\<lambda>a b. \<not> comes_after getTime a b) xs"
    by (cases xs) simp_all
  then have "sortedData getTime xs = xs" by (rule Cons.IH)
  with Cons.prems show ?case
    by (cases xs) (simp_all add: sortedData_Cons)
qed



lemma sortedData_idem [simp]:
  "sortedData getTime (sortedData getTime data) = sortedData getTime data"
  by (rule sortedData_id) (rule sortedData_in_place)

section \<open>Evaluation on concrete data\<close>

lemma round64_0 [simp]: "round64 0 = Fin 0"
  by (simp add: round64_def)

lemma round64_1 [simp]: "round64 1 = Fin 1"
  using round64_int [of 1] by simp

lemma round64_neg_1 [simp]: "round64 (- 1) = Fin (- 1)"
  using round64_int [of "- 1"] by simp

lemma round64_numeral [simp]:
  "numeral n \<le> (2::int) ^ 53 \<Longrightarrow> round64 (numeral n) = Fin (numeral n)"
  using round64_int [of "numeral n"] by simp

lemma round64_neg_numeral [simp]:
  "numeral n \<le> (2::int) ^ 53 \<Longrightarrow> round64 (- numeral n) = Fin (- numeral n)"
  using round64_int [of "- numeral n"] by simp

lemmas replay_eval =
  processAndValidateData_def sortedData_def comes_after_def example_row_def iso_time_def
  is_digit_def digits_value_def Let_def get_prop_def set_prop_def to_number_def
  ObjectPrototypeNames_def fun_upd_apply


section \<open>Idempotence of replay\<close>



section \<open>Frame and normalisation of replay\<close>

lemma insert_sorted_insort:
  "\<forall>t\<in>set (x # ys). getTime (tanggal t) \<noteq> None \<Longrightarrow>
     insert_sorted (comes_after getTime) x ys
       = insort_key (\<lambda>t. the (getTime (tanggal t))) x ys"
  by (induction ys) (auto simp: comes_after_def split: option.splits)

lemma sortedData_sort_key:
  "\<forall>t\<in>set data. getTime (tanggal t) \<noteq> None \<Longrightarrow>
     sortedData getTime data = sort_key (\<lambda>t. the (getTime (tanggal t))) data"
proof (induction data)
  case Nil
  show ?case by simp
next
  case (Cons x xs)
  then have ih: "sortedData getTime xs = sort_key (\<lambda>t. the (getTime (tanggal t))) xs"
    by simp
  have "insert_sorted (comes_after getTime) x (sort_key (\<lambda>t. the (getTime (tanggal t))) xs)
      = insort_key (\<lambda>t. the (getTime (tanggal t))) x (sort_key (\<lambda>t. the (getTime (tanggal t))) xs)"
    by (rule insert_sorted_insort) (use Cons.prems in simp)
  then show ?case
    by (simp add: sortedData_Cons ih)
qed

text \<open>
  Claim C7, amended.  When replay succeeds, its output has the length of the input; stock
  field apart, its records are those of the input, with multiplicity, and so are its
  identifiers.  When moreover every date of the input is one that \<open>getTime\<close> reads, the
  output is, stock field apart, the input sorted by time stamp with \<open>sort_key\<close>; it is
  ordered by time stamp; and for every date the records of that date are, stock field
  apart, those of the input in the order of the input (the sort is stable).
\<close>

theorem replay_frame:
  assumes "processAndValidateData getTime data S = (out, None)"
  shows "length out = length data
       \<and> mset (map clear_stok out) = mset (map clear_stok data)
       \<and> mset (map trans_id out) = mset (map trans_id data)
       \<and> ((\<forall>t\<in>set data. getTime (tanggal t) \<noteq> None) \<longrightarrow>
            map clear_stok out
              = map clear_stok (sort_key (\<lambda>t. the (getTime (tanggal t))) data)
          \<and> sorted (map (\<lambda>t. the (getTime (tanggal t))) out)
          \<and> (\<forall>d. filter (\<lambda>t. tanggal t = d) (map clear_stok out)
                 = filter (\<lambda>t. tanggal t = d) (map clear_stok data)))"
proof -
  let ?ts = "sortedData getTime data"
  let ?f = "\<lambda>t. the (getTime (tanggal t))"
  from assms have out: "out = relabel S ?ts"
    by (simp add: replay_success_iff)
  have len: "length out = length data"
    by (simp add: out)
  have clr: "map clear_stok out = map clear_stok ?ts"
    by (simp add: out relabel_clear)
  have recs: "mset (map clear_stok out) = mset (map clear_stok data)"
    unfolding clr by simp
  have ids: "mset (map trans_id out) = mset (map trans_id data)"
    by (simp add: out ids_relabel)
  have dated: "map clear_stok out = map clear_stok (sort_key ?f data)
          \<and> sorted (map ?f out)
          \<and> (\<forall>d. filter (\<lambda>t. tanggal t = d) (map clear_stok out)
                 = filter (\<lambda>t. tanggal t = d) (map clear_stok data))"
    if all: "\<forall>t\<in>set data. getTime (tanggal t) \<noteq> None"
  proof -
    have ts: "?ts = sort_key ?f data"
      by (rule sortedData_sort_key [OF all])
    have a: "map clear_stok out = map clear_stok (sort_key ?f data)"
      by (simp add: clr ts)
    have "map ?f out = map (\<lambda>d. the (getTime d)) (map tanggal out)"
      by simp
    also have "\<dots> = map (\<lambda>d. the (getTime d)) (map tanggal ?ts)"
      by (simp only: out tanggal_relabel)
    also have "\<dots> = map ?f (sort_key ?f data)"
      by (simp add: ts)
    finally have b: "sorted (map ?f out)"
      by simp
    have c: "filter (\<lambda>t. tanggal t = d) (map clear_stok out)
               = filter (\<lambda>t. tanggal t = d) (map clear_stok data)" for d
    proof -
      have same: "filter (\<lambda>t. tanggal t = d) (sort_key ?f data) = filter (\<lambda>t. tanggal t = d) data"
      proof (cases "\<exists>t\<in>set data. tanggal t = d")
        case False
        then show ?thesis by (simp add: filter_empty_conv [THEN iffD2])
      next
        case True
        have "filter (\<lambda>t. tanggal t = d) (sort_key ?f data)
            = filter (\<lambda>t. tanggal t = d) (filter (\<lambda>t. ?f t = the (getTime d)) (sort_key ?f data))"
          by (auto simp: conj_commute cong: conj_cong intro: filter_cong)
        also have "\<dots> = filter (\<lambda>t. tanggal t = d) (filter (\<lambda>t. ?f t = the (getTime d)) data)"
          by (simp only: sort_key_stable)
        also have "\<dots> = filter (\<lambda>t. tanggal t = d) data"
          by (auto simp: conj_commute cong: conj_cong intro: filter_cong)
        finally show ?thesis .
      qed
      have "filter (\<lambda>t. tanggal t = d) (map clear_stok (sort_key ?f data))
          = map clear_stok (filter (\<lambda>t. tanggal t = d) (sort_key ?f data))"
        by (simp add: filter_map o_def clear_stok_def)
      also have "\<dots> = map clear_stok (filter (\<lambda>t. tanggal t = d) data)"
        by (simp only: same)
      also have "\<dots> = filter (\<lambda>t. tanggal t = d) (map clear_stok data)"
        by (simp add: filter_map o_def clear_stok_def)
      finally show ?thesis by (simp only: a)
    qed
    from a b c show ?thesis by blast
  qed
  from len recs ids dated show ?thesis by blast
qed

theorem replay_frame_witness:
  "processAndValidateData iso_time
     [example_row ''x'' ''2024-03-05'' ''B'' (Fin 2) (Fin 0),
      example_row ''y'' ''2024-03-01'' ''B'' (Fin 0) (Fin 6),
      example_row ''z'' ''2024-03-05'' ''B'' (Fin 1) (Fin 0)] Map.empty
    = ([example_row ''y'' ''2024-03-01'' ''B'' (Fin 0) (Fin 6),
        example_row ''x'' ''2024-03-05'' ''B'' (Fin 2) (Fin 4),
        example_row ''z'' ''2024-03-05'' ''B'' (Fin 1) (Fin 3)], None)
   \<and> sorted (map (\<lambda>t. the (iso_time (tanggal t)))
        [example_row ''y'' ''2024-03-01'' ''B'' (Fin 0) (Fin 6),
         example_row ''x'' ''2024-03-05'' ''B'' (Fin 2) (Fin 4),
         example_row ''z'' ''2024-03-05'' ''B'' (Fin 1) (Fin 3)])
   \<and> filter (\<lambda>t. tanggal t = ''2024-03-05'') (map clear_stok
        [example_row ''y'' ''2024-03-01'' ''B'' (Fin 0) (Fin 6),
         example_row ''x'' ''2024-03-05'' ''B'' (Fin 2) (Fin 4),
         example_row ''z'' ''2024-03-05'' ''B'' (Fin 1) (Fin 3)])
     = filter (\<lambda>t. tanggal t = ''2024-03-05'') (map clear_stok
        [example_row ''x'' ''2024-03-05'' ''B'' (Fin 2) (Fin 0),
         example_row ''y'' ''2024-03-01'' ''B'' (Fin 0) (Fin 6),
         example_row ''z'' ''2024-03-05'' ''B'' (Fin 1) (Fin 0)])
   \<and> mset (map trans_id
        [example_row ''y'' ''2024-03-01'' ''B'' (Fin 0) (Fin 6),
         example_row ''x'' ''2024-03-05'' ''B'' (Fin 2) (Fin 4),
         example_row ''z'' ''2024-03-05'' ''B'' (Fin 1) (Fin 3)])
     = mset (map trans_id
        [example_row ''x'' ''2024-03-05'' ''B'' (Fin 2) (Fin 0),
         example_row ''y'' ''2024-03-01'' ''B'' (Fin 0) (Fin 6),
         example_row ''z'' ''2024-03-05'' ''B'' (Fin 1) (Fin 0)])"
proof -
  let ?d = "[example_row ''x'' ''2024-03-05'' ''B'' (Fin 2) (Fin 0),
      example_row ''y'' ''2024-03-01'' ''B'' (Fin 0) (Fin 6),
      example_row ''z'' ''2024-03-05'' ''B'' (Fin 1) (Fin 0)]"
  have h: "processAndValidateData iso_time ?d Map.empty
    = ([example_row ''y'' ''2024-03-01'' ''B'' (Fin 0) (Fin 6),
        example_row ''x'' ''2024-03-05'' ''B'' (Fin 2) (Fin 4),
        example_row ''z'' ''2024-03-05'' ''B'' (Fin 1) (Fin 3)], None)"
    by (simp add: replay_eval)
  have dates: "\<forall>t\<in>set ?d. iso_time (tanggal t) \<noteq> None"
    by (simp add: example_row_def iso_time_def is_digit_def)
  from replay_frame [OF h] dates h show ?thesis by blast
qed

text \<open>
  Claim C7 as stated fails where a date is not one that \<open>getTime\<close> reads.  The word
  \<^verbatim>\<open>kemarin\<close> is no date: the comparator gives NaN against it, no record moves, and replay
  returns the three records in the order of the input, that of 2 January before that of
  1 January, with no error.
\<close>

theorem replay_frame_counterexample:
  "processAndValidateData iso_time
     [example_row ''x'' ''2024-01-02'' ''A'' (Fin 0) (Fin 1),
      example_row ''y'' ''kemarin'' ''A'' (Fin 0) (Fin 2),
      example_row ''z'' ''2024-01-01'' ''A'' (Fin 0) (Fin 3)] Map.empty
    = ([example_row ''x'' ''2024-01-02'' ''A'' (Fin 0) (Fin 1),
        example_row ''y'' ''kemarin'' ''A'' (Fin 0) (Fin 2),
        example_row ''z'' ''2024-01-01'' ''A'' (Fin 0) (Fin 3)], None)
   \<and> iso_time ''kemarin'' = None
   \<and> iso_time ''2024-01-01'' = Some 20240101
   \<and> iso_time ''2024-01-02'' = Some 20240102"
  by (simp add: replay_eval)

section \<open>Failure of replay\<close>

text \<open>
  If, in the sorted list, some sale takes the stock that the loop holds for its product
  below zero, then the call fails at the first such sale: the returned list is empty, and
  the error carries the product, the date, the stock just before the transaction and the
  quantity of that transaction.
\<close>

lemma replay_fails_at_first_overdraw:
  assumes "\<exists>k<length (sortedData getTime data).
             overdraws (stock_before S (sortedData getTime data) k) (sortedData getTime data ! k)"
  shows "\<exists>k<length (sortedData getTime data).
           overdraws (stock_before S (sortedData getTime data) k) (sortedData getTime data ! k)
         \<and> (\<forall>i<k. \<not> overdraws (stock_before S (sortedData getTime data) i)
                      (sortedData getTime data ! i))
         \<and> processAndValidateData getTime data S =
             ([], Some (InsufficientStock (nama_produk (sortedData getTime data ! k))
                          (tanggal (sortedData getTime data ! k))
                          (stock_before S (sortedData getTime data) k)
                          (jumlah_terjual (sortedData getTime data ! k))))"
proof -
  let ?ts = "sortedData getTime data"
  from assms have "first_overdraw S ?ts \<noteq> None"
    by (simp add: first_overdraw_None_iff)
  then obtain e where e: "first_overdraw S ?ts = Some e"
    by blast
  then have res: "processAndValidateData getTime data S = ([], Some e)"
    by (simp add: replay_failure_iff)
  from first_overdraw_Some [OF e] res show ?thesis
    by auto
qed

text \<open>
  For instance, with an opening stock of 4 for \<^verbatim>\<open>A\<close>, a sale of 3, an adjustment to 2 and
  a sale of 5: the first two transactions pass, the third overdraws, and nothing of the
  first two is returned.
\<close>

lemma replay_failure_discards_output:
  "processAndValidateData iso_time
     [example_row ''a'' ''2024-01-01'' ''A'' (Fin 3) (Fin 0),
      example_row ''b'' ''2024-01-02'' ''A'' (Fin 0) (Fin 2),
      example_row ''c'' ''2024-01-03'' ''A'' (Fin 5) (Fin 0)] [''A'' \<mapsto> Fin 4]
    = ([], Some (InsufficientStock ''A'' ''2024-01-03'' (Fin 2) (Fin 5)))"
  by (simp add: replay_eval)

text \<open>
  Claim C2 fails for a product whose name is a property that every object inherits.
  Replay with no opening stock of the single sale of 5 units of the product
  \<^verbatim>\<open>constructor\<close> should start that product at 0, as the comment in the loop says, and
  fail, the stock before the sale being 0 and the quantity 5.  But
  \<^verbatim>\<open>currentStocks['constructor']\<close> is the inherited function and not \<^verbatim>\<open>undefined\<close>:
  the stock is not set to 0, the subtraction gives NaN, which is not below 0, and the
  sale is returned with \<open>stok_sisa\<close> NaN and no error.
\<close>

theorem replay_accepts_inherited_name:
  "processAndValidateData iso_time
     [example_row ''s'' ''2024-01-01'' ''constructor'' (Fin 5) (Fin 0)] Map.empty
    = ([example_row ''s'' ''2024-01-01'' ''constructor'' (Fin 5) NaN], None)"
  by (simp add: replay_eval)

section \<open>Non-negativity of the replayed ledger\<close>

lemma plain_writable: "plain_name S p \<Longrightarrow> p \<noteq> ''__proto__'' \<or> S p \<noteq> None"
  using proto_inherited by (auto simp: plain_name_def)

lemma stock_at_record_stock_same:
  "plain_name S (nama_produk t) \<Longrightarrow>
     stock_at (record_stock S t) (nama_produk t) = stock_step (stock_at S (nama_produk t)) t"
  using plain_writable [of S "nama_produk t"]
  by (simp add: record_stock_def stock_at_set_prop)

lemma stock_at_record_stock_other:
  "nama_produk t \<noteq> p \<Longrightarrow> stock_at (record_stock S t) p = stock_at S p"
  by (simp add: record_stock_def stock_at_set_prop)

lemma plain_record_stock: "plain_name S p \<Longrightarrow> plain_name (record_stock S t) p"
  by (simp add: record_stock_def plain_name_set_prop)

lemma js_nonneg_proper: "js_nonneg v \<Longrightarrow> v \<noteq> NaN \<and> v \<noteq> NegInf"
  by (cases v) (simp_all add: js_nonneg_def)

lemma stock_step_nonneg:
  assumes "\<not> overdraws s t" "s \<noteq> NaN" "s \<noteq> NegInf"
    and "jumlah_terjual t = Fin 0 \<longrightarrow> js_nonneg (stok_sisa t)"
    and "jumlah_terjual t \<noteq> NaN" "jumlah_terjual t \<noteq> PosInf"
  shows "js_nonneg (stock_step s t)"
proof (cases "jumlah_terjual t = Fin 0")
  case True
  with assms(4) show ?thesis by (simp add: stock_step_def)
next
  case False
  with assms(1) have "\<not> js_lt (js_sub s (jumlah_terjual t)) (Fin 0)"
    by (simp add: overdraws_def)
  moreover from assms(2,3,5,6) have "js_sub s (jumlah_terjual t) \<noteq> NaN"
    by (simp add: js_sub_NaN_iff)
  ultimately show ?thesis
    using False by (simp add: stock_step_def js_nonneg_iff)
qed

lemma relabel_product_nonneg:
  assumes "first_overdraw S ts = None" "plain_name S p"
    and "\<forall>t\<in>set ts. nama_produk t = p \<longrightarrow>
           (jumlah_terjual t = Fin 0 \<longrightarrow> js_nonneg (stok_sisa t))
           \<and> jumlah_terjual t \<noteq> NaN \<and> jumlah_terjual t \<noteq> PosInf"
    and "stock_at S p \<noteq> NaN" "stock_at S p \<noteq> NegInf"
  shows "\<forall>t\<in>set (relabel S ts). nama_produk t = p \<longrightarrow> js_nonneg (stok_sisa t)"
  using assms
proof (induction ts arbitrary: S)
  case Nil
  show ?case by simp
next
  case (Cons t ts)
  let ?S' = "record_stock S t"
  from Cons.prems(1) have no: "\<not> overdraws (stock_at S (nama_produk t)) t"
    and ok': "first_overdraw ?S' ts = None"
    by (simp_all split: if_splits)
  have plain': "plain_name ?S' p"
    by (rule plain_record_stock [OF Cons.prems(2)])
  have rest: "\<forall>t\<in>set ts. nama_produk t = p \<longrightarrow>
           (jumlah_terjual t = Fin 0 \<longrightarrow> js_nonneg (stok_sisa t))
           \<and> jumlah_terjual t \<noteq> NaN \<and> jumlah_terjual t \<noteq> PosInf"
    using Cons.prems(3) by simp
  show ?case
  proof (cases "nama_produk t = p")
    case True
    have v: "js_nonneg (stock_step (stock_at S p) t)"
      using no Cons.prems(3,4,5) True
      by (intro stock_step_nonneg) simp_all
    have at: "stock_at ?S' p = stock_step (stock_at S p) t"
      using stock_at_record_stock_same [of S t] Cons.prems(2) True by simp
    from js_nonneg_proper [OF v] at
    have "stock_at ?S' p \<noteq> NaN" "stock_at ?S' p \<noteq> NegInf"
      by simp_all
    from Cons.IH [OF ok' plain' rest this] v True show ?thesis
      by simp
  next
    case False
    then have "stock_at ?S' p = stock_at S p"
      by (rule stock_at_record_stock_other)
    with Cons.prems(4,5) have "stock_at ?S' p \<noteq> NaN" "stock_at ?S' p \<noteq> NegInf"
      by simp_all
    from Cons.IH [OF ok' plain' rest this] False show ?thesis
      by simp
  qed
qed

lemma relabel_cong_product:
  assumes "\<forall>t\<in>set xs. nama_produk t = p" "plain_name S p" "plain_name S' p"
    and "stock_at S p = stock_at S' p"
  shows "relabel S xs = relabel S' xs"
  using assms
proof (induction xs arbitrary: S S')
  case Nil
  show ?case by simp
next
  case (Cons x xs)
  from Cons.prems(1) have px: "nama_produk x = p" by simp
  have "relabel (record_stock S x) xs = relabel (record_stock S' x) xs"
  proof (rule Cons.IH)
    show "\<forall>t\<in>set xs. nama_produk t = p"
      using Cons.prems(1) by simp
    show "plain_name (record_stock S x) p" "plain_name (record_stock S' x) p"
      using Cons.prems(2,3) by (simp_all add: plain_record_stock)
    show "stock_at (record_stock S x) p = stock_at (record_stock S' x) p"
      using stock_at_record_stock_same [of S x] stock_at_record_stock_same [of S' x]
        Cons.prems(2,3,4) px by simp
  qed
  with Cons.prems(4) px show ?case by simp
qed

lemma of_product_relabel:
  "plain_name S p \<Longrightarrow> of_product p (relabel S ts) = relabel S (of_product p ts)"
proof (induction ts arbitrary: S)
  case Nil
  show ?case by (simp add: of_product_def)
next
  case (Cons t ts)
  let ?S' = "record_stock S t"
  have plain': "plain_name ?S' p"
    by (rule plain_record_stock [OF Cons.prems])
  note ih = Cons.IH [OF plain']
  show ?case
  proof (cases "nama_produk t = p")
    case True
    with ih show ?thesis
      by (simp add: of_product_def)
  next
    case False
    have "relabel ?S' (of_product p ts) = relabel S (of_product p ts)"
      by (rule relabel_cong_product [where p = p])
        (use False plain' Cons.prems in \<open>simp_all add: of_product_def stock_at_record_stock_other\<close>)
    with ih False show ?thesis
      by (simp add: of_product_def)
  qed
qed

lemma relabel_single_product:
  "\<forall>t\<in>set xs. nama_produk t = p \<Longrightarrow> plain_name S p \<Longrightarrow> n < length xs \<Longrightarrow>
     stok_sisa (relabel S xs ! n) = foldl stock_step (stock_at S p) (take (Suc n) xs)"
proof (induction xs arbitrary: S n)
  case Nil
  then show ?case by simp
next
  case (Cons x xs)
  have px: "nama_produk x = p" using Cons.prems(1) by simp
  show ?case
  proof (cases n)
    case 0
    then show ?thesis by (simp add: px)
  next
    case (Suc m)
    with Cons.prems have m: "m < length xs" by simp
    have "stok_sisa (relabel (record_stock S x) xs ! m)
        = foldl stock_step (stock_at (record_stock S x) p) (take (Suc m) xs)"
      by (rule Cons.IH [OF _ _ m]) (use Cons.prems in \<open>simp_all add: plain_record_stock\<close>)
    moreover have "stock_at (record_stock S x) p = stock_step (stock_at S p) x"
      using stock_at_record_stock_same [of S x] Cons.prems(2) px by simp
    ultimately show ?thesis
      using Suc by simp
  qed
qed

lemma prefix_stock_emitted:
  assumes n: "n < length (of_product p ts)" and pl: "plain_name S p"
  shows "\<exists>t \<in> set (relabel S ts). nama_produk t = p \<and>
           stok_sisa t = foldl stock_step (stock_at S p) (take (Suc n) (of_product p ts))"
proof -
  let ?h = "of_product p ts"
  have "stok_sisa (relabel S ?h ! n) = foldl stock_step (stock_at S p) (take (Suc n) ?h)"
    by (rule relabel_single_product [OF _ pl n]) (simp add: of_product_def)
  moreover have "relabel S ?h ! n \<in> set (of_product p (relabel S ts))"
    unfolding of_product_relabel [OF pl] using n by simp
  then have "relabel S ?h ! n \<in> set (relabel S ts) \<and> nama_produk (relabel S ?h ! n) = p"
    by (simp add: of_product_def)
  ultimately show ?thesis by blast
qed

text \<open>
  Claim C1, amended.  Replay checks sales only: an adjustment sets the stock to its own
  \<open>stok_sisa\<close>, whatever the sign, and the opening stocks are taken as they are.  Let
  \<open>p\<close> be a product whose name the opening stocks have or that is not an inherited
  name, whose adjustments carry a non-negative \<open>stok_sisa\<close>, whose quantities are neither
  NaN nor \<open>+Infinity\<close>, and whose opening stock is neither NaN nor \<open>-Infinity\<close>.  Then
  replay either succeeds, and every \<open>stok_sisa\<close> emitted for \<open>p\<close> and the folded stock of
  \<open>p\<close> after every non-empty prefix of its sorted transactions is non-negative, as is that
  of the empty prefix when the opening stock is; or it fails with the error of the first
  overdrawing sale: its product, its date, the stock before it and its quantity.
\<close>

theorem replay_nonnegative:
  assumes names: "plain_name S p"
    and adj: "\<forall>t\<in>set data. nama_produk t = p \<and> jumlah_terjual t = Fin 0 \<longrightarrow> js_nonneg (stok_sisa t)"
    and qs: "\<forall>t\<in>set data. nama_produk t = p \<longrightarrow> jumlah_terjual t \<noteq> NaN \<and> jumlah_terjual t \<noteq> PosInf"
    and opening_ok: "S p \<noteq> Some NaN \<and> S p \<noteq> Some NegInf"
  shows "(\<exists>out. processAndValidateData getTime data S = (out, None)
            \<and> (\<forall>t\<in>set out. nama_produk t = p \<longrightarrow> js_nonneg (stok_sisa t))
            \<and> (\<forall>n. n \<le> length (of_product p (sortedData getTime data)) \<longrightarrow>
                   0 < n \<or> js_nonneg (stock_at S p) \<longrightarrow>
                   js_nonneg (foldl stock_step (stock_at S p)
                          (take n (of_product p (sortedData getTime data))))))
       \<or> (\<exists>k<length (sortedData getTime data).
             processAndValidateData getTime data S =
               ([], Some (InsufficientStock (nama_produk (sortedData getTime data ! k))
                            (tanggal (sortedData getTime data ! k))
                            (stock_before S (sortedData getTime data) k)
                            (jumlah_terjual (sortedData getTime data ! k))))
           \<and> overdraws (stock_before S (sortedData getTime data) k) (sortedData getTime data ! k)
           \<and> (\<forall>i<k. \<not> overdraws (stock_before S (sortedData getTime data) i)
                        (sortedData getTime data ! i)))"
proof (cases "first_overdraw S (sortedData getTime data)")
  case None
  let ?ts = "sortedData getTime data"
  let ?out = "relabel S ?ts"
  have res: "processAndValidateData getTime data S = (?out, None)"
    by (simp add: replay_success_iff None)
  have hyp: "\<forall>t\<in>set ?ts. nama_produk t = p \<longrightarrow>
           (jumlah_terjual t = Fin 0 \<longrightarrow> js_nonneg (stok_sisa t))
           \<and> jumlah_terjual t \<noteq> NaN \<and> jumlah_terjual t \<noteq> PosInf"
    using adj qs by simp
  from opening_ok names have st: "stock_at S p \<noteq> NaN" "stock_at S p \<noteq> NegInf"
    by (auto simp: stock_at_plain split: option.splits)
  have emitted: "\<forall>t\<in>set ?out. nama_produk t = p \<longrightarrow> js_nonneg (stok_sisa t)"
    by (rule relabel_product_nonneg [OF None names hyp st])
  have "js_nonneg (foldl stock_step (stock_at S p) (take n (of_product p ?ts)))"
    if n: "n \<le> length (of_product p ?ts)" and pos: "0 < n \<or> js_nonneg (stock_at S p)" for n
  proof (cases n)
    case 0
    with pos show ?thesis by simp
  next
    case (Suc m)
    with n have "m < length (of_product p ?ts)" by simp
    from prefix_stock_emitted [OF this names] emitted Suc show ?thesis
      by auto
  qed
  with res emitted show ?thesis by blast
next
  case (Some e)
  then have res: "processAndValidateData getTime data S = ([], Some e)"
    by (simp add: replay_failure_iff)
  from first_overdraw_Some [OF Some] res show ?thesis
    by auto
qed

text \<open>
  Claim C1 as stated fails.  Replay of a single adjustment to \<open>-5\<close> succeeds, and the
  emitted \<open>stok_sisa\<close>, which is the folded stock after that transaction, is negative.
  With an opening stock of \<open>-5\<close> replay of no transaction succeeds, while the folded stock
  of the empty prefix is that opening stock.  A sale of 5 of the product
  \<^verbatim>\<open>constructor\<close>, with no opening stock, and a sale of \<^verbatim>\<open>Infinity\<close> after an adjustment
  to \<^verbatim>\<open>Infinity\<close>, are accepted with \<open>stok_sisa\<close> NaN, which is not \<open>\<ge> 0\<close>.  So are, in the
  number model, a sale of NaN, a sale from an opening stock NaN, and a sale of
  \<open>-Infinity\<close> from an opening stock \<open>-Infinity\<close>.
\<close>

theorem replay_nonnegative_counterexample:
  "processAndValidateData iso_time [example_row ''a'' ''2024-01-01'' ''A'' (Fin 0) (Fin (- 5))] Map.empty
     = ([example_row ''a'' ''2024-01-01'' ''A'' (Fin 0) (Fin (- 5))], None)
   \<and> \<not> js_nonneg (stok_sisa (example_row ''a'' ''2024-01-01'' ''A'' (Fin 0) (Fin (- 5))))
   \<and> \<not> js_nonneg (foldl stock_step (stock_at Map.empty ''A'')
        (take 1 (of_product ''A''
           (sortedData iso_time [example_row ''a'' ''2024-01-01'' ''A'' (Fin 0) (Fin (- 5))]))))
   \<and> processAndValidateData iso_time ([] :: SalesData list) [''A'' \<mapsto> Fin (- 5)] = ([], None)
   \<and> \<not> js_nonneg (foldl stock_step (stock_at [''A'' \<mapsto> Fin (- 5)] ''A'')
        (take 0 (of_product ''A'' (sortedData iso_time ([] :: SalesData list)))))
   \<and> processAndValidateData iso_time
        [example_row ''c'' ''2024-01-01'' ''constructor'' (Fin 5) (Fin 0)] Map.empty
     = ([example_row ''c'' ''2024-01-01'' ''constructor'' (Fin 5) NaN], None)
   \<and> processAndValidateData iso_time
        [example_row ''i'' ''2024-01-01'' ''A'' (Fin 0) PosInf,
         example_row ''j'' ''2024-01-02'' ''A'' PosInf (Fin 0)] Map.empty
     = ([example_row ''i'' ''2024-01-01'' ''A'' (Fin 0) PosInf,
         example_row ''j'' ''2024-01-02'' ''A'' PosInf NaN], None)
   \<and> processAndValidateData iso_time
        [example_row ''n'' ''2024-01-01'' ''A'' NaN (Fin 0)] Map.empty
     = ([example_row ''n'' ''2024-01-01'' ''A'' NaN NaN], None)
   \<and> processAndValidateData iso_time
        [example_row ''o'' ''2024-01-01'' ''A'' (Fin 1) (Fin 0)] [''A'' \<mapsto> NaN]
     = ([example_row ''o'' ''2024-01-01'' ''A'' (Fin 1) NaN], None)
   \<and> processAndValidateData iso_time
        [example_row ''m'' ''2024-01-01'' ''A'' NegInf (Fin 0)] [''A'' \<mapsto> NegInf]
     = ([example_row ''m'' ''2024-01-01'' ''A'' NegInf NaN], None)
   \<and> \<not> js_nonneg NaN"
  by (simp add: replay_eval stock_at_def stock_step_def of_product_def js_nonneg_def)

theorem replay_nonnegative_witness:
  "processAndValidateData iso_time
        [example_row ''m'' ''2024-02-02'' ''A'' (Fin 3) (Fin 0),
         example_row ''n'' ''2024-02-03'' ''A'' (Fin 0) (Fin 2)]
        [''A'' \<mapsto> Fin 4]
      = ([example_row ''m'' ''2024-02-02'' ''A'' (Fin 3) (Fin 1),
          example_row ''n'' ''2024-02-03'' ''A'' (Fin 0) (Fin 2)], None)
   \<and> js_nonneg (foldl stock_step (stock_at [''A'' \<mapsto> Fin 4] ''A'')
            (take 0 (of_product ''A'' (sortedData iso_time
               [example_row ''m'' ''2024-02-02'' ''A'' (Fin 3) (Fin 0),
                example_row ''n'' ''2024-02-03'' ''A'' (Fin 0) (Fin 2)]))))
   \<and> js_nonneg (foldl stock_step (stock_at [''A'' \<mapsto> Fin 4] ''A'')
            (take 1 (of_product ''A'' (sortedData iso_time
               [example_row ''m'' ''2024-02-02'' ''A'' (Fin 3) (Fin 0),
                example_row ''n'' ''2024-02-03'' ''A'' (Fin 0) (Fin 2)]))))
   \<and> js_nonneg (foldl stock_step (stock_at [''A'' \<mapsto> Fin 4] ''A'')
            (take 2 (of_product ''A'' (sortedData iso_time
               [example_row ''m'' ''2024-02-02'' ''A'' (Fin 3) (Fin 0),
                example_row ''n'' ''2024-02-03'' ''A'' (Fin 0) (Fin 2)]))))"
proof -
  let ?d = "[example_row ''m'' ''2024-02-02'' ''A'' (Fin 3) (Fin 0),
             example_row ''n'' ''2024-02-03'' ''A'' (Fin 0) (Fin 2)]"
  let ?S = "[''A'' \<mapsto> Fin 4]"
  have pl: "plain_name ?S ''A''"
    by (simp add: plain_name_def fun_upd_apply)
  have a: "\<forall>t\<in>set ?d. nama_produk t = ''A'' \<and> jumlah_terjual t = Fin 0 \<longrightarrow> js_nonneg (stok_sisa t)"
    by (simp add: example_row_def js_nonneg_def)
  have q: "\<forall>t\<in>set ?d. nama_produk t = ''A'' \<longrightarrow> jumlah_terjual t \<noteq> NaN \<and> jumlah_terjual t \<noteq> PosInf"
    by (simp add: example_row_def)
  have b: "?S ''A'' \<noteq> Some NaN \<and> ?S ''A'' \<noteq> Some NegInf"
    by (simp add: fun_upd_apply)
  have r: "processAndValidateData iso_time ?d ?S
      = ([example_row ''m'' ''2024-02-02'' ''A'' (Fin 3) (Fin 1),
          example_row ''n'' ''2024-02-03'' ''A'' (Fin 0) (Fin 2)], None)"
    by (simp add: replay_eval)
  have len: "length (of_product ''A'' (sortedData iso_time ?d)) = 2"
    by (simp add: replay_eval of_product_def)
  have s0: "js_nonneg (stock_at ?S ''A'')"
    by (simp add: stock_at_def get_prop_def fun_upd_apply js_nonneg_def)
  from replay_nonnegative [OF pl a q b, of iso_time] r
  have all: "\<forall>n. n \<le> length (of_product ''A'' (sortedData iso_time ?d)) \<longrightarrow>
                   0 < n \<or> js_nonneg (stock_at ?S ''A'') \<longrightarrow>
                   js_nonneg (foldl stock_step (stock_at ?S ''A'')
                          (take n (of_product ''A'' (sortedData iso_time ?d))))"
    by (elim disjE exE conjE) simp_all
  have "js_nonneg (foldl stock_step (stock_at ?S ''A'')
                          (take 0 (of_product ''A'' (sortedData iso_time ?d))))"
    by (rule all [rule_format]) (simp_all add: len s0)
  moreover have "js_nonneg (foldl stock_step (stock_at ?S ''A'')
                          (take 1 (of_product ''A'' (sortedData iso_time ?d))))"
    by (rule all [rule_format]) (simp_all add: len)
  moreover have "js_nonneg (foldl stock_step (stock_at ?S ''A'')
                          (take 2 (of_product ''A'' (sortedData iso_time ?d))))"
    by (rule all [rule_format]) (simp_all add: len)
  ultimately show ?thesis
    using r by blast
qed

section \<open>Conservation for sales\<close>

lemma last_relabel_product:
  assumes ne: "of_product p ts \<noteq> []" and pl: "plain_name S p"
  shows "stok_sisa (last (of_product p (relabel S ts)))
           = foldl stock_step (stock_at S p) (of_product p ts)"
proof -
  let ?h = "of_product p ts"
  from ne have n: "length ?h - 1 < length ?h" by simp
  have "relabel S ?h \<noteq> []"
    using ne by (cases ?h) simp_all
  then have "last (relabel S ?h) = relabel S ?h ! (length ?h - 1)"
    by (simp add: last_conv_nth)
  moreover have "stok_sisa (relabel S ?h ! (length ?h - 1))
      = foldl stock_step (stock_at S p) (take (Suc (length ?h - 1)) ?h)"
    by (rule relabel_single_product [OF _ pl n]) (simp add: of_product_def)
  ultimately show ?thesis
    using ne by (simp add: of_product_relabel [OF pl])
qed

lemma last_adjustment_None:
  "last_adjustment h = None \<longleftrightarrow> (\<forall>t\<in>set h. jumlah_terjual t \<noteq> Fin 0)"
  by (induction h) (auto split: option.splits)

lemma last_adjustment_Some:
  "last_adjustment h = Some (a, suf) \<Longrightarrow>
     (\<exists>pre. h = pre @ a # suf) \<and> jumlah_terjual a = Fin 0 \<and> (\<forall>t\<in>set suf. jumlah_terjual t \<noteq> Fin 0)"
proof (induction h)
  case Nil
  then show ?case by simp
next
  case (Cons t ts)
  show ?case
  proof (cases "last_adjustment ts")
    case None
    with Cons.prems have "jumlah_terjual t = Fin 0" "a = t" "suf = ts"
      by (simp_all split: if_splits)
    with None show ?thesis
      by (auto simp: last_adjustment_None)
  next
    case (Some r)
    with Cons.prems have "last_adjustment ts = Some (a, suf)"
      by simp
    from Cons.IH [OF this] show ?thesis
      by (metis append_Cons)
  qed
qed

lemma stock_step_apply:
  "stock_step s t = (if jumlah_terjual t = Fin 0 then stok_sisa t else js_sub s (jumlah_terjual t))"
  by (simp add: stock_step_def)

lemma sales_since_sales: "\<forall>t\<in>set (sales_since h). jumlah_terjual t \<noteq> Fin 0"
proof (cases "last_adjustment h")
  case None
  then have "sales_since h = h"
    by (simp add: sales_since_def)
  with None [unfolded last_adjustment_None] show ?thesis
    by simp
next
  case (Some r)
  obtain a suf where r: "r = (a, suf)" by (cases r)
  from last_adjustment_Some [OF Some [unfolded r]] show ?thesis
    by (simp add: sales_since_def Some r)
qed

lemma foldl_stock_step_base:
  "foldl stock_step s h = foldl stock_step (stock_base s h) (sales_since h)"
proof (cases "last_adjustment h")
  case None
  then show ?thesis
    by (simp add: sales_since_def stock_base_def)
next
  case (Some r)
  obtain a suf where r: "r = (a, suf)" by (cases r)
  from last_adjustment_Some [OF Some [unfolded r]] obtain pre where
    h: "h = pre @ a # suf" and a: "jumlah_terjual a = Fin 0"
    by blast
  have "foldl stock_step s h = foldl stock_step (stock_step (foldl stock_step s pre) a) suf"
    by (simp add: h)
  also have "stock_step (foldl stock_step s pre) a = stok_sisa a"
    by (simp add: stock_step_apply a)
  finally show ?thesis
    by (simp add: sales_since_def stock_base_def Some r)
qed

lemma is_Fin_num_val: "is_Fin x \<Longrightarrow> x = Fin (num_val x)"
  by (cases x) (simp_all add: is_Fin_def num_val_def)

lemma fold_sales_exact:
  assumes "\<forall>t\<in>set xs. jumlah_terjual t \<noteq> Fin 0 \<and> is_Fin (jumlah_terjual t)"
    and "\<forall>n. n \<le> length xs \<longrightarrow>
           is_binary64 (b - sum_list (map (\<lambda>t. num_val (jumlah_terjual t)) (take n xs)))"
  shows "foldl stock_step (Fin b) xs
           = Fin (b - sum_list (map (\<lambda>t. num_val (jumlah_terjual t)) xs))"
  using assms
proof (induction xs arbitrary: b)
  case Nil
  show ?case by simp
next
  case (Cons x xs)
  let ?q = "num_val (jumlah_terjual x)"
  from Cons.prems(1) have sale: "jumlah_terjual x \<noteq> Fin 0" and fin: "jumlah_terjual x = Fin ?q"
    by (simp_all add: is_Fin_num_val [symmetric])
  from Cons.prems(2) [rule_format, of 1] have "is_binary64 (b - ?q)"
    by simp
  then have "js_sub (Fin b) (Fin ?q) = Fin (b - ?q)"
    by (simp add: is_binary64_def)
  with sale fin have step: "stock_step (Fin b) x = Fin (b - ?q)"
    by (simp add: stock_step_apply)
  have rest: "\<forall>n. n \<le> length xs \<longrightarrow>
           is_binary64 (b - ?q - sum_list (map (\<lambda>t. num_val (jumlah_terjual t)) (take n xs)))"
  proof (intro allI impI)
    fix n
    assume "n \<le> length xs"
    with Cons.prems(2) [rule_format, of "Suc n"] show
      "is_binary64 (b - ?q - sum_list (map (\<lambda>t. num_val (jumlah_terjual t)) (take n xs)))"
      by (simp add: algebra_simps)
  qed
  have "foldl stock_step (Fin b) (x # xs) = foldl stock_step (Fin (b - ?q)) xs"
    by (simp add: step)
  also have "\<dots> = Fin (b - ?q - sum_list (map (\<lambda>t. num_val (jumlah_terjual t)) xs))"
    by (rule Cons.IH [OF _ rest]) (use Cons.prems(1) in simp)
  finally show ?case
    by (simp add: algebra_simps)
qed

text \<open>
  Claim C6, amended.  Let replay succeed, and let \<open>p\<close> be a product with at least one
  transaction, whose name the opening stocks have or that is not an inherited name.
  Count from the value of the last adjustment of \<open>p\<close>, or from its opening stock (0 when
  it has none) if \<open>p\<close> has no adjustment.  If that value and the quantities sold after it
  are finite numbers, and that value minus the first \<open>n\<close> of these quantities is a
  binary64 number for every \<open>n\<close>, so that no subtraction is rounded, then the \<open>stok_sisa\<close>
  of the last output record of \<open>p\<close> is that value minus the sum of these quantities.
\<close>

theorem replay_conservation:
  assumes ok: "processAndValidateData getTime data S = (out, None)"
    and ne: "product_history getTime data p \<noteq> []"
    and pl: "plain_name S p"
    and base: "is_Fin (stock_base (stock_at S p) (product_history getTime data p))"
    and fin: "\<forall>t\<in>set (sales_since (product_history getTime data p)). is_Fin (jumlah_terjual t)"
    and exact: "\<forall>n. n \<le> length (sales_since (product_history getTime data p)) \<longrightarrow>
        is_binary64 (num_val (stock_base (stock_at S p) (product_history getTime data p))
          - sum_list (map (\<lambda>t. num_val (jumlah_terjual t))
                        (take n (sales_since (product_history getTime data p)))))"
  shows "stok_sisa (last (of_product p out)) =
           Fin (num_val (stock_base (stock_at S p) (product_history getTime data p))
                 - sum_list (map (\<lambda>t. num_val (jumlah_terjual t))
                               (sales_since (product_history getTime data p))))"
proof -
  let ?h = "product_history getTime data p"
  let ?b = "stock_base (stock_at S p) ?h"
  from ok have out: "out = relabel S (sortedData getTime data)"
    by (simp add: replay_success_iff)
  have "stok_sisa (last (of_product p out)) = foldl stock_step (stock_at S p) ?h"
    unfolding out product_history_def
    by (rule last_relabel_product [OF ne [unfolded product_history_def] pl])
  also have "\<dots> = foldl stock_step ?b (sales_since ?h)"
    by (rule foldl_stock_step_base)
  also have "\<dots> = foldl stock_step (Fin (num_val ?b)) (sales_since ?h)"
    using is_Fin_num_val [OF base] by simp
  also have "\<dots> = Fin (num_val ?b - sum_list (map (\<lambda>t. num_val (jumlah_terjual t)) (sales_since ?h)))"
    by (rule fold_sales_exact) (use sales_since_sales [of ?h] fin exact in auto)
  finally show ?thesis .
qed

lemma is_binary64_0 [simp]: "is_binary64 0"
  by (simp add: is_binary64_def)

lemma is_binary64_numeral [simp]: "numeral n \<le> (2::int) ^ 53 \<Longrightarrow> is_binary64 (numeral n)"
  by (simp add: is_binary64_def)

theorem replay_conservation_witness:
  "processAndValidateData iso_time
     [example_row ''p'' ''2024-05-01'' ''A'' (Fin 0) (Fin 10),
      example_row ''q'' ''2024-05-02'' ''A'' (Fin 3) (Fin 0),
      example_row ''r'' ''2024-05-03'' ''C'' (Fin 2) (Fin 0)] [''C'' \<mapsto> Fin 9]
    = ([example_row ''p'' ''2024-05-01'' ''A'' (Fin 0) (Fin 10),
        example_row ''q'' ''2024-05-02'' ''A'' (Fin 3) (Fin 7),
        example_row ''r'' ''2024-05-03'' ''C'' (Fin 2) (Fin 7)], None)
   \<and> stok_sisa (last (of_product ''A''
        [example_row ''p'' ''2024-05-01'' ''A'' (Fin 0) (Fin 10),
         example_row ''q'' ''2024-05-02'' ''A'' (Fin 3) (Fin 7),
         example_row ''r'' ''2024-05-03'' ''C'' (Fin 2) (Fin 7)])) = Fin (10 - 3)
   \<and> stok_sisa (last (of_product ''C''
        [example_row ''p'' ''2024-05-01'' ''A'' (Fin 0) (Fin 10),
         example_row ''q'' ''2024-05-02'' ''A'' (Fin 3) (Fin 7),
         example_row ''r'' ''2024-05-03'' ''C'' (Fin 2) (Fin 7)])) = Fin (9 - 2)"
proof -
  let ?d = "[example_row ''p'' ''2024-05-01'' ''A'' (Fin 0) (Fin 10),
      example_row ''q'' ''2024-05-02'' ''A'' (Fin 3) (Fin 0),
      example_row ''r'' ''2024-05-03'' ''C'' (Fin 2) (Fin 0)]"
  let ?o = "[example_row ''p'' ''2024-05-01'' ''A'' (Fin 0) (Fin 10),
        example_row ''q'' ''2024-05-02'' ''A'' (Fin 3) (Fin 7),
        example_row ''r'' ''2024-05-03'' ''C'' (Fin 2) (Fin 7)]"
  let ?S = "[''C'' \<mapsto> Fin 9]"
  have r: "processAndValidateData iso_time ?d ?S = (?o, None)"
    by (simp add: replay_eval)
  have hA: "product_history iso_time ?d ''A''
      = [example_row ''p'' ''2024-05-01'' ''A'' (Fin 0) (Fin 10),
         example_row ''q'' ''2024-05-02'' ''A'' (Fin 3) (Fin 0)]"
    by (simp add: product_history_def of_product_def replay_eval)
  have hC: "product_history iso_time ?d ''C'' = [example_row ''r'' ''2024-05-03'' ''C'' (Fin 2) (Fin 0)]"
    by (simp add: product_history_def of_product_def replay_eval)
  have sA: "sales_since (product_history iso_time ?d ''A'')
      = [example_row ''q'' ''2024-05-02'' ''A'' (Fin 3) (Fin 0)]"
    and bA: "stock_base (stock_at ?S ''A'') (product_history iso_time ?d ''A'') = Fin 10"
    unfolding hA by (simp_all add: sales_since_def stock_base_def example_row_def)
  have sC: "sales_since (product_history iso_time ?d ''C'')
      = [example_row ''r'' ''2024-05-03'' ''C'' (Fin 2) (Fin 0)]"
    and bC: "stock_base (stock_at ?S ''C'') (product_history iso_time ?d ''C'') = Fin 9"
    unfolding hC
    by (simp_all add: sales_since_def stock_base_def example_row_def stock_at_def get_prop_def
        fun_upd_apply)
  have plA: "plain_name ?S ''A''" and plC: "plain_name ?S ''C''"
    by (simp_all add: plain_name_def ObjectPrototypeNames_def fun_upd_apply)
  have "stok_sisa (last (of_product ''A'' ?o)) = Fin (10 - 3)"
  proof -
    have ne: "product_history iso_time ?d ''A'' \<noteq> []"
      unfolding hA by simp
    have base: "is_Fin (stock_base (stock_at ?S ''A'') (product_history iso_time ?d ''A''))"
      unfolding bA by (simp add: is_Fin_def)
    have fin: "\<forall>t\<in>set (sales_since (product_history iso_time ?d ''A'')). is_Fin (jumlah_terjual t)"
      unfolding sA by (simp add: is_Fin_def example_row_def)
    have exact: "\<forall>n. n \<le> length (sales_since (product_history iso_time ?d ''A'')) \<longrightarrow>
        is_binary64 (num_val (stock_base (stock_at ?S ''A'') (product_history iso_time ?d ''A''))
          - sum_list (map (\<lambda>t. num_val (jumlah_terjual t))
                        (take n (sales_since (product_history iso_time ?d ''A'')))))"
      unfolding sA bA by (auto simp: le_Suc_eq num_val_def example_row_def)
    from replay_conservation [OF r ne plA base fin exact] show ?thesis
      unfolding sA bA by (simp add: num_val_def example_row_def)
  qed
  moreover have "stok_sisa (last (of_product ''C'' ?o)) = Fin (9 - 2)"
  proof -
    have ne: "product_history iso_time ?d ''C'' \<noteq> []"
      unfolding hC by simp
    have base: "is_Fin (stock_base (stock_at ?S ''C'') (product_history iso_time ?d ''C''))"
      unfolding bC by (simp add: is_Fin_def)
    have fin: "\<forall>t\<in>set (sales_since (product_history iso_time ?d ''C'')). is_Fin (jumlah_terjual t)"
      unfolding sC by (simp add: is_Fin_def example_row_def)
    have exact: "\<forall>n. n \<le> length (sales_since (product_history iso_time ?d ''C'')) \<longrightarrow>
        is_binary64 (num_val (stock_base (stock_at ?S ''C'') (product_history iso_time ?d ''C''))
          - sum_list (map (\<lambda>t. num_val (jumlah_terjual t))
                        (take n (sales_since (product_history iso_time ?d ''C'')))))"
      unfolding sC bC by (auto simp: le_Suc_eq num_val_def example_row_def)
    from replay_conservation [OF r ne plC base fin exact] show ?thesis
      unfolding sC bC by (simp add: num_val_def example_row_def)
  qed
  ultimately show ?thesis
    using r by blast
qed

text \<open>
  Claim C6 as stated fails where a subtraction is rounded.  After an adjustment of \<^verbatim>\<open>A\<close>
  to \<open>2^54\<close> a sale of 1 leaves \<open>2^54\<close>: the difference \<open>2^54 - 1\<close> is no binary64 number
  and is rounded to \<open>2^54\<close>.  It also fails for the product \<^verbatim>\<open>__proto__\<close>: the adjustment
  to 10 is emitted, but writing it to \<^verbatim>\<open>currentStocks\<close> does nothing, and the sale of 3
  that follows is emitted with \<open>stok_sisa\<close> NaN, not 7.
\<close>

lemma round64_above_2_54: "round64 18014398509481983 = Fin 18014398509481984"
  by (simp add: round64_def round_pos_def js_neg_def flog2_def bitlen.simps pow2_def
      round_half_even_def Let_def)

theorem replay_conservation_counterexample:
  "processAndValidateData iso_time
     [example_row ''a'' ''2024-01-01'' ''A'' (Fin 0) (Fin 18014398509481984),
      example_row ''b'' ''2024-01-02'' ''A'' (Fin 1) (Fin 0)] Map.empty
    = ([example_row ''a'' ''2024-01-01'' ''A'' (Fin 0) (Fin 18014398509481984),
        example_row ''b'' ''2024-01-02'' ''A'' (Fin 1) (Fin 18014398509481984)], None)
   \<and> (18014398509481984 :: rat) = 2 ^ 54
   \<and> processAndValidateData iso_time
     [example_row ''c'' ''2024-01-01'' ''__proto__'' (Fin 0) (Fin 10),
      example_row ''d'' ''2024-01-02'' ''__proto__'' (Fin 3) (Fin 0)] Map.empty
    = ([example_row ''c'' ''2024-01-01'' ''__proto__'' (Fin 0) (Fin 10),
        example_row ''d'' ''2024-01-02'' ''__proto__'' (Fin 3) NaN], None)"
  by (simp add: replay_eval round64_above_2_54)

section \<open>Stock inference\<close>

subsection \<open>Grouping\<close>

lemma map_of_push_group:
  "map_of (push_group n x g) =
     (map_of g)(n \<mapsto> (case map_of g n of None \<Rightarrow> [x] | Some xs \<Rightarrow> xs @ [x]))"
  by (induction n x g rule: push_group.induct) (auto simp: fun_upd_apply fun_eq_iff)

lemma keys_push_group:
  "map fst (push_group n x g) = (if n \<in> set (map fst g) then map fst g else map fst g @ [n])"
  by (induction n x g rule: push_group.induct) auto

lemma distinct_push_group:
  "distinct (map fst g) \<Longrightarrow> distinct (map fst (push_group n x g))"
  by (simp add: keys_push_group)

lemma productTransactions_Cons:
  "productTransactions g (tx # rest) =
     (if map_of g (nama_produk tx) = None \<and> nama_produk tx \<in> set ObjectPrototypeNames
      then Inl TypeError
      else productTransactions (push_group (nama_produk tx) tx g) rest)"
  by (simp add: Let_def)

declare productTransactions.simps(2) [simp del]

lemma productTransactions_Inr:
  "productTransactions g ts = Inr g' \<Longrightarrow>
     g' = foldl (\<lambda>g t. push_group (nama_produk t) t g) g ts"
  by (induction ts arbitrary: g) (simp_all add: productTransactions_Cons split: if_splits)


lemma productTransactions_throws:
  "\<exists>t\<in>set ts. nama_produk t \<in> set ObjectPrototypeNames \<Longrightarrow>
   \<forall>k\<in>set (map fst g). k \<notin> set ObjectPrototypeNames \<Longrightarrow>
     productTransactions g ts = Inl TypeError"
proof (induction ts arbitrary: g)
  case Nil
  then show ?case by simp
next
  case (Cons t ts)
  show ?case
  proof (cases "nama_produk t \<in> set ObjectPrototypeNames")
    case True
    with Cons.prems(2) have "nama_produk t \<notin> fst ` set g"
      by auto
    then have "map_of g (nama_produk t) = None"
      by (simp add: map_of_eq_None_iff)
    with True show ?thesis
      by (simp add: productTransactions_Cons)
  next
    case False
    with Cons.prems(1) have later: "\<exists>t\<in>set ts. nama_produk t \<in> set ObjectPrototypeNames"
      by auto
    have keys: "\<forall>k\<in>set (map fst (push_group (nama_produk t) t g)). k \<notin> set ObjectPrototypeNames"
      using Cons.prems(2) False by (simp add: keys_push_group)
    from Cons.IH [OF later keys] False show ?thesis
      by (simp add: productTransactions_Cons)
  qed
qed

lemma groups_snoc:
  "foldl (\<lambda>g t. push_group (nama_produk t) t g) g0 (ts @ [t])
     = push_group (nama_produk t) t (foldl (\<lambda>g t. push_group (nama_produk t) t g) g0 ts)"
  by simp

lemma distinct_groups:
  "distinct (map fst (foldl (\<lambda>g t. push_group (nama_produk t) t g) [] ts))"
proof (induction ts rule: rev_induct)
  case Nil
  show ?case by simp
next
  case (snoc t ts)
  then show ?case
    by (simp only: groups_snoc distinct_push_group)
qed

lemma of_product_snoc:
  "of_product p (ts @ [t]) = of_product p ts @ (if nama_produk t = p then [t] else [])"
  by (simp add: of_product_def)

lemma map_of_groups:
  "map_of (foldl (\<lambda>g t. push_group (nama_produk t) t g) [] ts) p =
     (if of_product p ts = [] then None else Some (of_product p ts))"
proof (induction ts arbitrary: p rule: rev_induct)
  case Nil
  show ?case by (simp add: of_product_def)
next
  case (snoc t ts)
  show ?case
    unfolding groups_snoc map_of_push_group of_product_snoc
    by (simp add: fun_upd_apply snoc.IH)
qed

subsection \<open>The order of the loop over the products\<close>

lemma mset_own_properties: "mset (own_properties e) = mset e"
  by (simp add: own_properties_def)

lemma set_own_properties [simp]: "set (own_properties e) = set e"
  using mset_own_properties [of e] by (metis set_mset_mset)

lemma distinct_own_properties:
  "distinct (map fst e) \<Longrightarrow> distinct (map fst (own_properties e))"
proof -
  have "mset (map fst (own_properties e)) = mset (map fst e)"
    by (simp only: mset_map mset_own_properties)
  then show "distinct (map fst e) \<Longrightarrow> distinct (map fst (own_properties e))"
    by (metis mset_eq_imp_distinct_iff)
qed

lemma map_of_own_properties:
  "distinct (map fst e) \<Longrightarrow> map_of (own_properties e) = map_of e"
  by (simp add: map_of_inject_set distinct_own_properties)

subsection \<open>The loop over the products\<close>

lemma infer_step_pair:
  "infer_step getTime S m (k, v) =
     (if get_prop S k \<noteq> Absent then m else m(k \<mapsto> js_abs (minStockLevel getTime v)))"
  using proto_inherited
  by (auto simp: infer_step_def get_prop_def set_prop_def split: option.splits)

lemma infer_fold:
  "distinct (map fst g) \<Longrightarrow>
   foldl (infer_step getTime S) m g p =
     (case map_of g p of
        None \<Rightarrow> m p
      | Some pts \<Rightarrow> if get_prop S p \<noteq> Absent then m p else Some (js_abs (minStockLevel getTime pts)))"
proof (induction g arbitrary: m)
  case Nil
  show ?case by simp
next
  case (Cons kv g)
  obtain k v where kv: "kv = (k, v)" by (cases kv)
  from Cons.prems kv have d: "distinct (map fst g)" and nk: "k \<notin> fst ` set g"
    by simp_all
  from nk have none: "map_of g k = None"
    by (simp add: map_of_eq_None_iff)
  show ?case
    unfolding kv
    by (simp add: Cons.IH [OF d] none infer_step_pair fun_upd_apply split: option.splits)
qed

lemma inferInitialStocks_eq:
  assumes "inferInitialStocks getTime T S = Inr m"
  shows "m p =
     (if get_prop S p = Absent \<and> of_product p T \<noteq> []
      then Some (js_abs (minStockLevel getTime (of_product p T))) else None)"
proof -
  let ?g = "foldl (\<lambda>g t. push_group (nama_produk t) t g) [] T"
  from assms obtain g where g: "productTransactions [] T = Inr g"
    and mg: "m = foldl (infer_step getTime S) Map.empty (own_properties g)"
    by (auto simp: inferInitialStocks_def split: sum.splits)
  from productTransactions_Inr [OF g] mg
  have m: "m = foldl (infer_step getTime S) Map.empty (own_properties ?g)"
    by simp
  have d: "distinct (map fst ?g)"
    by (rule distinct_groups)
  show ?thesis
    unfolding m
    by (simp add: infer_fold [OF distinct_own_properties [OF d]] map_of_own_properties [OF d]
        map_of_groups)
qed


lemma inferInitialStocks_throws:
  "\<exists>t\<in>set T. nama_produk t \<in> set ObjectPrototypeNames \<Longrightarrow>
     inferInitialStocks getTime T S = Inl TypeError"
  by (simp add: inferInitialStocks_def productTransactions_throws)

text \<open>
  Claim C9.  When \<open>inferInitialStocks\<close> returns a map, that map has no key of the known
  opening-stock map, every key of it is the product name of an input transaction, and
  merging it over the known map, as the caller does, leaves every known entry as it was.
  (It returns a map unless a product name is a property that every object inherits;
  then it throws, by the two lemmas above.)
\<close>

theorem infer_adds_only_new_keys:
  assumes "inferInitialStocks getTime T S = Inr m"
  shows "dom m \<inter> dom S = {} \<and> dom m \<subseteq> nama_produk ` set T \<and> S \<subseteq>\<^sub>m S ++ m"
proof -
  note eq = inferInitialStocks_eq [OF assms]
  have absent: "S p = None" if "get_prop S p = Absent" for p
    using that by (simp add: get_prop_def split: option.splits)
  have disj: "dom m \<inter> dom S = {}"
    using absent by (auto simp: eq split: if_splits)
  have "p \<in> nama_produk ` set T" if "of_product p T \<noteq> []" for p
  proof -
    from that obtain t where "t \<in> set (of_product p T)"
      by (cases "of_product p T") auto
    then show ?thesis
      by (auto simp: of_product_def)
  qed
  then have sub: "dom m \<subseteq> nama_produk ` set T"
    by (auto simp: eq split: if_splits)
  from disj have "S \<subseteq>\<^sub>m S ++ m"
    by (metis inf_commute map_add_comm map_le_map_add)
  with disj sub show ?thesis by blast
qed

lemmas infer_eval =
  inferInitialStocks_def productTransactions_Cons infer_step_def minStockLevel_def
  min_stock_step_def own_properties_def is_array_index_def js_abs_def

theorem infer_adds_only_new_keys_witness:
  "inferInitialStocks iso_time
      [example_row ''u'' ''2024-06-02'' ''A'' (Fin 5) (Fin 0),
       example_row ''v'' ''2024-06-01'' ''A'' (Fin 3) (Fin 0),
       example_row ''w'' ''2024-06-03'' ''B'' (Fin 4) (Fin 0)] [''B'' \<mapsto> Fin 1]
     = Inr [''A'' \<mapsto> Fin 8]
   \<and> dom [''A'' \<mapsto> Fin 8] \<inter> dom [''B'' \<mapsto> Fin 1] = {}
   \<and> [''B'' \<mapsto> Fin 1] \<subseteq>\<^sub>m [''B'' \<mapsto> Fin 1] ++ [''A'' \<mapsto> Fin 8]"
proof -
  have h: "inferInitialStocks iso_time
      [example_row ''u'' ''2024-06-02'' ''A'' (Fin 5) (Fin 0),
       example_row ''v'' ''2024-06-01'' ''A'' (Fin 3) (Fin 0),
       example_row ''w'' ''2024-06-03'' ''B'' (Fin 4) (Fin 0)] [''B'' \<mapsto> Fin 1]
     = Inr [''A'' \<mapsto> Fin 8]"
    by (simp add: infer_eval replay_eval)
  from infer_adds_only_new_keys [OF h] h show ?thesis
    by simp
qed

subsection \<open>The running minimum\<close>

lemma running_total_0 [simp]: "running_total h 0 = 0"
  by (simp add: running_total_def)

lemma running_total_Cons [simp]:
  "running_total (x # xs) (Suc n) = qty x + running_total xs n"
  by (simp add: running_total_def)





subsection \<open>Replay of one product\<close>






subsection \<open>Minimality of the inferred stock\<close>






section \<open>CSV parsing\<close>

subsection \<open>Numbers in cells\<close>

lemma not_digit_point [simp]: "\<not> is_digit CHR ''.''"
  by (simp add: is_digit_def)

lemma decimal_prefix_None_iff:
  "decimal_prefix r = None \<longleftrightarrow>
     (case r of
        [] \<Rightarrow> True
      | c # cs \<Rightarrow> \<not> is_digit c \<and> \<not> (c = CHR ''.'' \<and> (case cs of [] \<Rightarrow> False | d # ds \<Rightarrow> is_digit d)))"
  by (cases r; cases "tl r") (auto simp: decimal_prefix_def Let_def)

lemma parseFloat_NaN_iff: "parseFloat s = NaN \<longleftrightarrow> \<not> starts_number s"
proof -
  let ?r = "unsigned_part (dropWhile is_space s)"
  have "parseFloat s = NaN \<longleftrightarrow> take 8 ?r \<noteq> ''Infinity'' \<and> decimal_prefix ?r = None"
    by (simp add: parseFloat_def Let_def round64_not_NaN split: option.splits)
  also have "\<dots> \<longleftrightarrow> \<not> starts_number s"
    unfolding decimal_prefix_None_iff starts_number_def Let_def
    by (simp split: list.splits)
  finally show ?thesis .
qed

lemma numValue_NaN_iff:
  "numValue v = NaN \<longleftrightarrow> (case v of None \<Rightarrow> True | Some s \<Rightarrow> \<not> starts_number s)"
  by (simp add: numValue_def parseFloat_NaN_iff split: option.splits)

subsection \<open>Objects\<close>

lemma map_of_obj_update: "map_of (obj_update k v e) = (map_of e)(k \<mapsto> v)"
  by (induction k v e rule: obj_update.induct) (auto simp: fun_upd_apply fun_eq_iff)

lemma keys_obj_update:
  "map fst (obj_update k v e) = (if k \<in> set (map fst e) then map fst e else map fst e @ [k])"
  by (induction k v e rule: obj_update.induct) auto

lemma map_of_obj_set:
  "map_of (obj_set k v e) =
     (if k = ''__proto__'' \<and> map_of e k = None then map_of e else (map_of e)(k \<mapsto> v))"
proof (cases "k = ''__proto__'' \<and> map_of e k = None")
  case True
  show ?thesis
    by (simp only: obj_set_def if_P [OF True])
next
  case False
  show ?thesis
    by (simp only: obj_set_def if_not_P [OF False] map_of_obj_update)
qed

lemma keys_obj_set:
  "map fst (obj_set k v e) =
     (if k = ''__proto__'' \<and> k \<notin> set (map fst e) then map fst e
      else if k \<in> set (map fst e) then map fst e else map fst e @ [k])"
  by (auto simp: obj_set_def keys_obj_update map_of_eq_None_iff)

subsection \<open>One line\<close>

lemma fill_entry_Cons:
  "fill_entry index values i (h # hs) entry =
     (if h \<in> set numericColumns then
        (if numValue (nth_opt values i) = NaN then Inl (InvalidValue (index + 2) h)
         else fill_entry index values (Suc i) hs (obj_set h (Num (numValue (nth_opt values i))) entry))
      else fill_entry index values (Suc i) hs (obj_set h (strValue (nth_opt values i)) entry))"
  by (simp add: Let_def)

declare fill_entry.simps(2) [simp del]

lemma fill_entry_Inl:
  "fill_entry index values i hs entry = Inl e \<Longrightarrow>
     \<exists>j<length hs. hs ! j \<in> set numericColumns
        \<and> numValue (nth_opt values (i + j)) = NaN
        \<and> e = InvalidValue (index + 2) (hs ! j)"
proof (induction hs arbitrary: i entry)
  case Nil
  then show ?case by simp
next
  case (Cons h hs)
  show ?case
  proof (cases "h \<in> set numericColumns \<and> numValue (nth_opt values i) = NaN")
    case True
    with Cons.prems have "e = InvalidValue (index + 2) h"
      by (simp add: fill_entry_Cons)
    with True show ?thesis
      by (intro exI [of _ 0]) simp
  next
    case False
    with Cons.prems obtain entry' where
      "fill_entry index values (Suc i) hs entry' = Inl e"
      by (auto simp: fill_entry_Cons split: if_splits)
    from Cons.IH [OF this] obtain j where "j < length hs"
      "hs ! j \<in> set numericColumns" "numValue (nth_opt values (Suc i + j)) = NaN"
      "e = InvalidValue (index + 2) (hs ! j)"
      by blast
    then show ?thesis
      by (intro exI [of _ "Suc j"]) simp
  qed
qed

lemma fill_entry_Inr:
  "fill_entry index values i hs entry = Inr e' \<Longrightarrow> j < length hs \<Longrightarrow>
     hs ! j \<in> set numericColumns \<Longrightarrow> numValue (nth_opt values (i + j)) \<noteq> NaN"
proof (induction hs arbitrary: i entry j)
  case Nil
  then show ?case by simp
next
  case (Cons h hs)
  show ?case
  proof (cases j)
    case 0
    with Cons.prems show ?thesis
      by (auto simp: fill_entry_Cons split: if_splits)
  next
    case (Suc j')
    from Cons.prems(1) obtain entry' where
      rest: "fill_entry index values (Suc i) hs entry' = Inr e'"
      by (auto simp: fill_entry_Cons split: if_splits)
    from Cons.prems Suc have "j' < length hs" "hs ! j' \<in> set numericColumns"
      by simp_all
    from Cons.IH [OF rest this] Suc show ?thesis
      by simp
  qed
qed

lemma fill_entry_keeps:
  "fill_entry index values i hs entry = Inr e' \<Longrightarrow> k \<notin> set hs \<Longrightarrow>
     map_of e' k = map_of entry k"
proof (induction hs arbitrary: i entry)
  case Nil
  then show ?case by simp
next
  case (Cons h hs)
  from Cons.prems(1) obtain v where
    rest: "fill_entry index values (Suc i) hs (obj_set h v entry) = Inr e'"
    by (auto simp: fill_entry_Cons split: if_splits)
  from Cons.prems(2) have "k \<notin> set hs" "k \<noteq> h"
    by auto
  with Cons.IH [OF rest] show ?case
    by (simp add: map_of_obj_set fun_upd_apply)
qed

text \<open>The names of the properties of a parsed row, in order, depend on the header only.\<close>

lemma fill_entry_key_list:
  "fill_entry index values i hs entry = Inr e' \<Longrightarrow>
     map fst e' =
       foldl (\<lambda>K h. if h = ''__proto__'' \<and> h \<notin> set K then K
                     else if h \<in> set K then K else K @ [h]) (map fst entry) hs"
proof (induction hs arbitrary: i entry)
  case Nil
  then show ?case by simp
next
  case (Cons h hs)
  from Cons.prems(1) obtain v where
    rest: "fill_entry index values (Suc i) hs (obj_set h v entry) = Inr e'"
    by (auto simp: fill_entry_Cons split: if_splits)
  from Cons.IH [OF rest] show ?case
    by (simp only: foldl_Cons keys_obj_set)
qed

lemma fill_entry_carries:
  "fill_entry index values i hs entry = Inr e' \<Longrightarrow> j < length hs \<Longrightarrow>
     hs ! j \<notin> set numericColumns \<Longrightarrow> hs ! j \<noteq> ''__proto__'' \<Longrightarrow>
     (\<forall>j'<length hs. j < j' \<longrightarrow> hs ! j' \<noteq> hs ! j) \<Longrightarrow>
     map_of e' (hs ! j) = Some (strValue (nth_opt values (i + j)))"
proof (induction hs arbitrary: i entry j)
  case Nil
  then show ?case by simp
next
  case (Cons h hs)
  show ?case
  proof (cases j)
    case 0
    with Cons.prems(3) have nn: "h \<notin> set numericColumns"
      by simp
    from 0 Cons.prems(4) have np: "h \<noteq> ''__proto__''"
      by simp
    from nn Cons.prems(1) have
      rest: "fill_entry index values (Suc i) hs (obj_set h (strValue (nth_opt values i)) entry) = Inr e'"
      by (simp add: fill_entry_Cons)
    have "h \<notin> set hs"
    proof
      assume "h \<in> set hs"
      then obtain n where "n < length hs" "hs ! n = h"
        by (auto simp: in_set_conv_nth)
      with Cons.prems(5) [rule_format, of "Suc n"] 0 show False
        by simp
    qed
    from fill_entry_keeps [OF rest this] 0 np show ?thesis
      by (simp add: map_of_obj_set fun_upd_apply)
  next
    case (Suc j')
    from Cons.prems(1) obtain v where
      rest: "fill_entry index values (Suc i) hs (obj_set h v entry) = Inr e'"
      by (auto simp: fill_entry_Cons split: if_splits)
    from Cons.prems Suc have a: "j' < length hs" and b: "hs ! j' \<notin> set numericColumns"
      and b': "hs ! j' \<noteq> ''__proto__''"
      by simp_all
    have c: "\<forall>n<length hs. j' < n \<longrightarrow> hs ! n \<noteq> hs ! j'"
    proof (intro allI impI)
      fix n assume "n < length hs" "j' < n"
      with Cons.prems(5) [rule_format, of "Suc n"] Suc show "hs ! n \<noteq> hs ! j'"
        by simp
    qed
    from Cons.IH [OF rest a b b' c] Suc show ?thesis
      by simp
  qed
qed

subsection \<open>All lines\<close>

lemma map_lines_Inl:
  "map_lines newId header index ls = Inl e \<Longrightarrow>
     \<exists>r<length ls. parse_line newId header (index + r) (ls ! r) = Inl e"
proof (induction ls arbitrary: index)
  case Nil
  then show ?case by simp
next
  case (Cons l ls)
  show ?case
  proof (cases "parse_line newId header index l")
    case (Inl e')
    with Cons.prems have "e' = e" by simp
    with Inl show ?thesis
      by (intro exI [of _ 0]) simp
  next
    case (Inr entry)
    with Cons.prems have "map_lines newId header (Suc index) ls = Inl e"
      by (simp split: sum.splits)
    from Cons.IH [OF this] obtain r where "r < length ls"
      "parse_line newId header (Suc index + r) (ls ! r) = Inl e"
      by blast
    then show ?thesis
      by (intro exI [of _ "Suc r"]) simp
  qed
qed

lemma map_lines_Inr:
  "map_lines newId header index ls = Inr es \<Longrightarrow>
     length es = length ls
     \<and> (\<forall>r<length ls. parse_line newId header (index + r) (ls ! r) = Inr (es ! r))"
proof (induction ls arbitrary: index es)
  case Nil
  then show ?case by simp
next
  case (Cons l ls)
  from Cons.prems obtain entry es' where
    hd: "parse_line newId header index l = Inr entry"
    and tl: "map_lines newId header (Suc index) ls = Inr es'"
    and es: "es = entry # es'"
    by (auto split: sum.splits)
  from Cons.IH [OF tl] hd es show ?case
    by (simp add: All_less_Suc2)
qed

subsection \<open>The whole text\<close>

lemma parseCSV_short:
  "length (csv_lines text) < 2 \<Longrightarrow>
     parseCSV newId text = ([], Some EmptyCsv) \<and> csv_rows text = []"
  by (cases "csv_lines text") (simp_all add: parseCSV_def csv_rows_def)

lemma parseCSV_complete:
  assumes "set requiredHeaders \<subseteq> set (csv_header text)" and "2 \<le> length (csv_lines text)"
  shows "parseCSV newId text =
     (case map_lines newId (csv_header text) 0 (csv_rows text) of
        Inl e \<Rightarrow> ([], Some e)
      | Inr data \<Rightarrow> (data, None))"
proof -
  from assms(1) have "filter (\<lambda>rh. rh \<notin> set (csv_header text)) requiredHeaders = []"
    by (auto simp: filter_empty_conv)
  with assms(2) show ?thesis
    by (simp add: parseCSV_def Let_def)
qed

lemma map_lines_Inl_cell:
  assumes "map_lines newId (csv_header text) 0 (csv_rows text) = Inl e"
  shows "\<exists>r i. unreadable_cell text r i \<and> e = InvalidValue (r + 2) (csv_header text ! i)"
proof -
  from map_lines_Inl [OF assms] obtain r where r: "r < length (csv_rows text)"
    and "parse_line newId (csv_header text) r (csv_rows text ! r) = Inl e"
    by auto
  then have "fill_entry r (cells (csv_rows text ! r)) 0 (csv_header text)
      [(''id'', Str (newId r))] = Inl e"
    by (simp add: parse_line_def)
  from fill_entry_Inl [OF this] r show ?thesis
    by (auto simp: unreadable_cell_def cell_def numValue_NaN_iff)
qed

lemma map_lines_Inr_cell:
  assumes "map_lines newId (csv_header text) 0 (csv_rows text) = Inr es"
  shows "\<not> unreadable_cell text r i"
proof
  assume bad: "unreadable_cell text r i"
  then have r: "r < length (csv_rows text)"
    by (simp add: unreadable_cell_def)
  with map_lines_Inr [OF assms] have
    "parse_line newId (csv_header text) r (csv_rows text ! r) = Inr (es ! r)"
    by simp
  then have "fill_entry r (cells (csv_rows text ! r)) 0 (csv_header text)
      [(''id'', Str (newId r))] = Inr (es ! r)"
    by (simp add: parse_line_def)
  from fill_entry_Inr [OF this, of i] bad show False
    by (simp add: unreadable_cell_def cell_def numValue_NaN_iff)
qed

text \<open>
  Claim C8, amended.  \<^verbatim>\<open>parseFloat\<close> reads the number a cell starts with and ignores
  what follows it.  For a text whose header has all required columns, \<open>parseCSV\<close> returns
  the error naming a row and a column exactly when some data line has, in a numeric
  column, a cell that is missing or that does not start with a number (after white space
  and a sign: \<^verbatim>\<open>Infinity\<close>, a digit, or a point and a digit); then no record is
  returned, and the row and column named are those of such a cell (rows counted from 2,
  the header being line 1).
\<close>

theorem parseCSV_numeric_cells:
  assumes complete: "set requiredHeaders \<subseteq> set (csv_header text)"
  shows "((\<exists>row col. snd (parseCSV newId text) = Some (InvalidValue row col))
            \<longleftrightarrow> (\<exists>r i. unreadable_cell text r i))
       \<and> (\<forall>row col. snd (parseCSV newId text) = Some (InvalidValue row col) \<longrightarrow>
             fst (parseCSV newId text) = []
           \<and> (\<exists>r i. unreadable_cell text r i \<and> row = r + 2 \<and> col = csv_header text ! i))"
proof (cases "length (csv_lines text) < 2")
  case True
  from parseCSV_short [OF True, of newId] show ?thesis
    by (simp add: unreadable_cell_def)
next
  case False
  then have two: "2 \<le> length (csv_lines text)" by simp
  note eq = parseCSV_complete [OF complete two, of newId]
  show ?thesis
  proof (cases "map_lines newId (csv_header text) 0 (csv_rows text)")
    case (Inl e)
    from map_lines_Inl_cell [OF Inl] obtain r i where
      "unreadable_cell text r i" "e = InvalidValue (r + 2) (csv_header text ! i)"
      by blast
    with Inl eq show ?thesis
      by auto
  next
    case (Inr es)
    from map_lines_Inr_cell [OF Inr] Inr eq show ?thesis
      by simp
  qed
qed

lemmas csv_eval =
  cells_def split_on_def trim_def is_space_def requiredHeaders_def numericColumns_def
  parse_line_def numValue_def strValue_def parseFloat_def decimal_prefix_def exponent_part_def
  unsigned_part_def pow10_def is_digit_def digits_value_def Let_def fill_entry_Cons obj_set_def

theorem parseCSV_numeric_cells_witness:
  "snd (parseCSV (\<lambda>i. ''row'') (example_header @ ''\<newline>2024-01-01,A,x,0,0,0,0,0,5''))
     = Some (InvalidValue 2 ''jumlah_terjual'')
   \<and> fst (parseCSV (\<lambda>i. ''row'') (example_header @ ''\<newline>2024-01-01,A,x,0,0,0,0,0,5'')) = []
   \<and> (\<exists>r i. unreadable_cell (example_header @ ''\<newline>2024-01-01,A,x,0,0,0,0,0,5'') r i)"
proof -
  let ?text = "example_header @ ''\<newline>2024-01-01,A,x,0,0,0,0,0,5''"
  have lines: "csv_lines ?text = [example_header, ''2024-01-01,A,x,0,0,0,0,0,5'']"
    by (simp add: csv_lines_def example_header_def split_on_def trim_def is_space_def)
  have header: "csv_header ?text = requiredHeaders"
    unfolding csv_header_def lines
    by (simp add: cells_def example_header_def split_on_def trim_def is_space_def
        requiredHeaders_def)
  have complete: "set requiredHeaders \<subseteq> set (csv_header ?text)"
    by (simp add: header)
  have res: "snd (parseCSV (\<lambda>i. ''row'') ?text) = Some (InvalidValue 2 ''jumlah_terjual'')"
    unfolding parseCSV_def header csv_rows_def lines
    by (simp add: csv_eval)
  from parseCSV_numeric_cells [OF complete, of "\<lambda>i. ''row''"] res
  show ?thesis
    by auto
qed

text \<open>
  Claim C8 as stated fails for a cell that starts with a number and goes on with
  something else.  The cell \<^verbatim>\<open>12abc\<close> in the column \<^verbatim>\<open>jumlah_terjual\<close> is no numeric
  value, yet \<open>parseCSV\<close> returns no error and a record with the quantity 12.
\<close>

theorem parseCSV_numeric_cells_counterexample:
  "parseCSV (\<lambda>i. ''row'') (example_header @ ''\<newline>2024-01-01,A,12abc,0,0,0,0,0,5'')
     = ([[(''id'', Str ''row''), (''tanggal'', Str ''2024-01-01''), (''nama_produk'', Str ''A''),
          (''jumlah_terjual'', Num (Fin 12)), (''harga_beli'', Num (Fin 0)),
          (''harga_jual'', Num (Fin 0)), (''total_penjualan'', Num (Fin 0)),
          (''total_biaya'', Num (Fin 0)), (''laba'', Num (Fin 0)), (''stok_sisa'', Num (Fin 5))]],
        None)
   \<and> cell (example_header @ ''\<newline>2024-01-01,A,12abc,0,0,0,0,0,5'') 0 2 = Some ''12abc''
   \<and> \<not> numeric_text ''12abc''"
proof -
  let ?text = "example_header @ ''\<newline>2024-01-01,A,12abc,0,0,0,0,0,5''"
  have lines: "csv_lines ?text = [example_header, ''2024-01-01,A,12abc,0,0,0,0,0,5'']"
    by (simp add: csv_lines_def example_header_def split_on_def trim_def is_space_def)
  have header: "csv_header ?text = requiredHeaders"
    unfolding csv_header_def lines
    by (simp add: cells_def example_header_def split_on_def trim_def is_space_def
        requiredHeaders_def)
  have rows: "csv_rows ?text = [''2024-01-01,A,12abc,0,0,0,0,0,5'']"
    by (simp add: csv_rows_def lines)
  have a: "parseCSV (\<lambda>i. ''row'') ?text
     = ([[(''id'', Str ''row''), (''tanggal'', Str ''2024-01-01''), (''nama_produk'', Str ''A''),
          (''jumlah_terjual'', Num (Fin 12)), (''harga_beli'', Num (Fin 0)),
          (''harga_jual'', Num (Fin 0)), (''total_penjualan'', Num (Fin 0)),
          (''total_biaya'', Num (Fin 0)), (''laba'', Num (Fin 0)), (''stok_sisa'', Num (Fin 5))]],
        None)"
    unfolding parseCSV_def header csv_rows_def lines
    by (simp add: csv_eval)
  have b: "cell ?text 0 2 = Some ''12abc''"
    unfolding cell_def rows
    by (simp add: cells_def split_on_def trim_def is_space_def numeral_2_eq_2)
  have c: "\<not> numeric_text ''12abc''"
    by (simp add: numeric_text_def unsigned_part_def is_digit_def Let_def)
  from a b c show ?thesis by blast
qed

subsection \<open>The stock column of an adjustment line\<close>

lemma example_header_cells: "cells example_header = requiredHeaders"
  by (simp add: cells_def example_header_def split_on_def trim_def is_space_def
      requiredHeaders_def)

lemma parse_adjustment_5:
  "parseCSV (\<lambda>i. ''row'') (example_header @ ''\<newline>2024-01-01,A,0,0,0,0,0,0,5'')
     = ([parsed_adjustment (Fin 5)], None)"
proof -
  have lines: "csv_lines (example_header @ ''\<newline>2024-01-01,A,0,0,0,0,0,0,5'')
      = [example_header, ''2024-01-01,A,0,0,0,0,0,0,5'']"
    by (simp add: csv_lines_def example_header_def split_on_def trim_def is_space_def)
  have hdr: "csv_header (example_header @ ''\<newline>2024-01-01,A,0,0,0,0,0,0,5'') = requiredHeaders"
    by (simp add: csv_header_def lines example_header_cells)
  show ?thesis
    unfolding parseCSV_def hdr csv_rows_def lines
    by (simp add: csv_eval parsed_adjustment_def)
qed

lemma parse_adjustment_7:
  "parseCSV (\<lambda>i. ''row'') (example_header @ ''\<newline>2024-01-01,A,0,0,0,0,0,0,7'')
     = ([parsed_adjustment (Fin 7)], None)"
proof -
  have lines: "csv_lines (example_header @ ''\<newline>2024-01-01,A,0,0,0,0,0,0,7'')
      = [example_header, ''2024-01-01,A,0,0,0,0,0,0,7'']"
    by (simp add: csv_lines_def example_header_def split_on_def trim_def is_space_def)
  have hdr: "csv_header (example_header @ ''\<newline>2024-01-01,A,0,0,0,0,0,0,7'') = requiredHeaders"
    by (simp add: csv_header_def lines example_header_cells)
  show ?thesis
    unfolding parseCSV_def hdr csv_rows_def lines
    by (simp add: csv_eval parsed_adjustment_def)
qed

lemma as_SalesData_parsed_adjustment:
  "as_SalesData (parsed_adjustment n) =
     \<lparr>trans_id = ''row'', tanggal = ''2024-01-01'', nama_produk = ''A'', jumlah_terjual = Fin 0,
      harga_beli = Fin 0, harga_jual = Fin 0, total_penjualan = Fin 0, total_biaya = Fin 0,
      laba = Fin 0, stok_sisa = n, \<dots> = parsed_adjustment n\<rparr>"
  by (simp add: as_SalesData_def num_field_def str_field_def obj_get_def parsed_adjustment_def
      fun_upd_apply)

lemma replay_parsed_adjustment:
  "processAndValidateData iso_time [as_SalesData (parsed_adjustment n)] Map.empty
     = ([as_SalesData (parsed_adjustment n)], None)"
  by (simp add: processAndValidateData_def sortedData_def as_SalesData_parsed_adjustment Let_def)

lemma stok_sisa_parsed_adjustment: "stok_sisa (as_SalesData (parsed_adjustment n)) = n"
  by (simp add: as_SalesData_parsed_adjustment)

text \<open>
  Claim C5.  Two texts that differ only in the \<open>stok_sisa\<close> cell of a line with
  \<open>jumlah_terjual = 0\<close>: both parse, both replay, and the replayed \<open>stok_sisa\<close> is the
  cell of the text, 5 for one and 7 for the other.
\<close>

theorem stok_sisa_column_read_back:
  "processAndValidateData iso_time
     (map as_SalesData (fst (parseCSV (\<lambda>i. ''row'')
        (example_header @ ''\<newline>2024-01-01,A,0,0,0,0,0,0,5'')))) Map.empty
   = ([as_SalesData (parsed_adjustment (Fin 5))], None)
   \<and> processAndValidateData iso_time
     (map as_SalesData (fst (parseCSV (\<lambda>i. ''row'')
        (example_header @ ''\<newline>2024-01-01,A,0,0,0,0,0,0,7'')))) Map.empty
   = ([as_SalesData (parsed_adjustment (Fin 7))], None)
   \<and> stok_sisa (as_SalesData (parsed_adjustment (Fin 5))) = Fin 5
   \<and> stok_sisa (as_SalesData (parsed_adjustment (Fin 7))) = Fin 7"
  by (simp add: parse_adjustment_5 parse_adjustment_7 replay_parsed_adjustment
      stok_sisa_parsed_adjustment)

end
